theory Spec2Isabelle
  imports Main "HOL-Library.Word"
begin

section \<open>Data model of hs\_spi.c\<close>

text \<open>
  The library talks to three things outside itself: the C heap (malloc, free), the
  operating system (open, close, ioctl on a spidev descriptor, the pthread mutex) and the
  user's chip-select callback. The model records every such call, in order, as an
  \<open>event\<close> in the \<open>trace\<close> of the \<open>world\<close>; what a call returns is read from an
  oracle (\<open>sys\<close>) that may depend on everything that happened so far, so that every
  possible behaviour of the environment is one value of the oracle.

  \<open>size_t\<close> values are natural numbers: the source only compares them and subtracts a
  smaller from a larger one, so no wrap-around can occur. \<open>int\<close> values (descriptors,
  return codes) are integers.
\<close>

type_synonym u8 = "8 word"

datatype hs_spi_mode_e = E_HS_SPI_MODE_0 | E_HS_SPI_MODE_1 | E_HS_SPI_MODE_2 | E_HS_SPI_MODE_3

text \<open>
  The byte buffers a transfer can touch: a buffer owned by the caller (identified by a
  number, so that two arguments may name the same buffer), the two scratch buffers
  \<open>tx_buf\<close> and \<open>rx_buf\<close> of the full-duplex functions, and the by-value parameter
  \<open>reg_addr\<close>, whose address the register-addressed functions pass to the driver.
  A pointer into a buffer is the buffer and an offset; \<open>None\<close> is the null pointer.
\<close>

datatype region = Caller nat | Tx_scratch | Rx_scratch | Reg_addr

type_synonym ptr = "region \<times> nat"

text \<open>The fields of \<open>struct spi_ioc_transfer\<close> that the source sets; all others stay zero.\<close>

record spi_ioc_transfer =
  tx_buf :: "ptr option"
  rx_buf :: "ptr option"
  len :: nat
  cs_change :: nat

datatype spi_req =
    SPI_IOC_WR_MODE hs_spi_mode_e
  | SPI_IOC_RD_MODE hs_spi_mode_e
  | SPI_IOC_WR_MAX_SPEED_HZ "32 word"
  | SPI_IOC_RD_MAX_SPEED_HZ "32 word"
  | SPI_IOC_WR_BITS_PER_WORD u8
  | SPI_IOC_RD_BITS_PER_WORD u8

text \<open>
  \<open>Ioctl_message fd [d]\<close> is \<open>ioctl(fd, SPI_IOC_MESSAGE(1), &d)\<close> and
  \<open>Ioctl_message fd [a, d]\<close> is \<open>ioctl(fd, SPI_IOC_MESSAGE(2), ...)\<close>.
\<close>

datatype event =
    Malloc_handle
  | Free_handle
  | Malloc region nat
  | Free region
  | Mutex_init
  | Mutex_lock
  | Mutex_unlock
  | Mutex_destroy
  | Open string
  | Close int
  | Ioctl_config int spi_req
  | Ioctl_message int "spi_ioc_transfer list"
  | Cs_control_cb bool

text \<open>\<open>typedef int (*hs_spi_cs_control_cb)(bool enable)\<close>: user code, which sees the history.\<close>

type_synonym hs_spi_cs_control_cb = "event list \<Rightarrow> bool \<Rightarrow> int"

text \<open>\<open>struct _hs_spi\<close>; the mutex is visible through its events only.\<close>

record hs_spi_t =
  fd :: int
  cs_control_cb :: "hs_spi_cs_control_cb option"
  max_transfer_len :: nat

text \<open>A \<open>hs_spi_t *\<close> argument: null, or the address of the one handle of the world.\<close>

datatype hs_spi_ptr = Null | Hs_spi

text \<open>
  The environment: \<open>sys_ret\<close> is the value returned by the system call that is the last
  event of the given trace, \<open>malloc_ok\<close> whether the allocation that is its last event
  succeeded, \<open>malloc_junk\<close> the uninitialised contents of a fresh allocation, and
  \<open>spi_miso tr k i\<close> the byte the bus delivers as byte \<open>i\<close> of transfer \<open>k\<close> of that
  message.
\<close>

record sys =
  sys_ret :: "event list \<Rightarrow> int"
  malloc_ok :: "event list \<Rightarrow> bool"
  malloc_junk :: "event list \<Rightarrow> nat \<Rightarrow> u8"
  spi_miso :: "event list \<Rightarrow> nat \<Rightarrow> nat \<Rightarrow> u8"

text \<open>
  The state: the fields of the handle, the contents of every byte buffer, and the trace.
  \<open>free\<close> only records its event: the last contents of a freed buffer stay readable in
  \<open>mem\<close>, so that theorems can speak about them.
\<close>

record world =
  hs :: hs_spi_t
  mem :: "region \<Rightarrow> u8 list"
  trace :: "event list"

section \<open>The environment's primitives\<close>

definition emit :: "event \<Rightarrow> world \<Rightarrow> world" where
  "emit e w = w\<lparr>trace := trace w @ [e]\<rparr>"

definition pthread_mutex_lock :: "world \<Rightarrow> world" where
  "pthread_mutex_lock w = emit Mutex_lock w"

definition pthread_mutex_unlock :: "world \<Rightarrow> world" where
  "pthread_mutex_unlock w = emit Mutex_unlock w"

text \<open>Overwrite \<open>length bs\<close> bytes of a buffer, from offset \<open>off\<close>.\<close>

definition store_bytes :: "nat \<Rightarrow> u8 list \<Rightarrow> u8 list \<Rightarrow> u8 list" where
  "store_bytes off bs buf = take off buf @ bs @ drop (off + length bs) buf"

definition malloc :: "sys \<Rightarrow> region \<Rightarrow> nat \<Rightarrow> world \<Rightarrow> bool \<times> world" where
  "malloc env r n w =
     (let w1 = emit (Malloc r n) w
      in if malloc_ok env (trace w1)
         then (True, w1\<lparr>mem := (mem w1)(r := map (malloc_junk env (trace w1)) [0..<n])\<rparr>)
         else (False, w1))"

definition free :: "region \<Rightarrow> world \<Rightarrow> world" where
  "free r w = emit (Free r) w"

definition memset :: "region \<Rightarrow> u8 \<Rightarrow> nat \<Rightarrow> world \<Rightarrow> world" where
  "memset r c n w = w\<lparr>mem := (mem w)(r := store_bytes 0 (replicate n c) (mem w r))\<rparr>"

definition memcpy :: "region \<Rightarrow> region \<Rightarrow> nat \<Rightarrow> world \<Rightarrow> world" where
  "memcpy dst src n w =
     w\<lparr>mem := (mem w)(dst := store_bytes 0 (take n (mem w src)) (mem w dst))\<rparr>"

definition sys_open :: "sys \<Rightarrow> string \<Rightarrow> world \<Rightarrow> int \<times> world" where
  "sys_open env name w = (let w1 = emit (Open name) w in (sys_ret env (trace w1), w1))"

definition sys_close :: "int \<Rightarrow> world \<Rightarrow> world" where
  "sys_close fdv w = emit (Close fdv) w"

definition ioctl_config :: "sys \<Rightarrow> int \<Rightarrow> spi_req \<Rightarrow> world \<Rightarrow> int \<times> world" where
  "ioctl_config env fdv req w =
     (let w1 = emit (Ioctl_config fdv req) w in (sys_ret env (trace w1), w1))"

text \<open>A successful message stores the received bytes of every transfer that has an \<open>rx_buf\<close>.\<close>

fun rx_store ::
  "sys \<Rightarrow> event list \<Rightarrow> nat \<Rightarrow> spi_ioc_transfer list \<Rightarrow> (region \<Rightarrow> u8 list) \<Rightarrow> region \<Rightarrow> u8 list"
where
  "rx_store env tr k [] m = m"
| "rx_store env tr k (d # ds) m =
     rx_store env tr (Suc k) ds
       (case rx_buf d of
          None \<Rightarrow> m
        | Some (r, off) \<Rightarrow> m(r := store_bytes off (map (spi_miso env tr k) [0..<len d]) (m r)))"

definition ioctl_message :: "sys \<Rightarrow> int \<Rightarrow> spi_ioc_transfer list \<Rightarrow> world \<Rightarrow> int \<times> world" where
  "ioctl_message env fdv msg w =
     (let w1 = emit (Ioctl_message fdv msg) w;
          ret = sys_ret env (trace w1)
      in if ret < 0 then (ret, w1)
         else (ret, w1\<lparr>mem := rx_store env (trace w1) 0 msg (mem w1)\<rparr>))"

section \<open>The handle\<close>

definition hs_spi_cs_control :: "hs_spi_ptr \<Rightarrow> bool \<Rightarrow> world \<Rightarrow> int \<times> world" where
  "hs_spi_cs_control hs_spi enable w =
     (if hs_spi = Null then (-1, w)
      else case cs_control_cb (hs w) of
             Some cb \<Rightarrow> (let w1 = emit (Cs_control_cb enable) w in (cb (trace w1) enable, w1))
           | None \<Rightarrow> (0, w))"

definition hs_spi_create :: "sys \<Rightarrow> world \<Rightarrow> hs_spi_ptr \<times> world" where
  "hs_spi_create env w =
     (let w1 = emit Malloc_handle w
      in if \<not> malloc_ok env (trace w1) then (Null, w1)
         else (Hs_spi,
               emit Mutex_init
                 (w1\<lparr>hs := \<lparr>fd = -1, cs_control_cb = None, max_transfer_len = 0\<rparr>\<rparr>)))"

definition set_fd :: "int \<Rightarrow> world \<Rightarrow> world" where
  "set_fd v w = w\<lparr>hs := (hs w)\<lparr>fd := v\<rparr>\<rparr>"

definition set_max_len :: "nat \<Rightarrow> world \<Rightarrow> world" where
  "set_max_len v w = w\<lparr>hs := (hs w)\<lparr>max_transfer_len := v\<rparr>\<rparr>"

definition set_cb :: "hs_spi_cs_control_cb option \<Rightarrow> world \<Rightarrow> world" where
  "set_cb v w = w\<lparr>hs := (hs w)\<lparr>cs_control_cb := v\<rparr>\<rparr>"

definition close_if_open :: "world \<Rightarrow> world" where
  "close_if_open w = (if fd (hs w) \<noteq> -1 then set_fd (-1) (sys_close (fd (hs w)) w) else w)"

definition fail_close :: "int \<Rightarrow> int \<Rightarrow> world \<Rightarrow> int \<times> world" where
  "fail_close code fdv w = (code, pthread_mutex_unlock (sys_close fdv w))"

definition hs_spi_init ::
  "sys \<Rightarrow> hs_spi_ptr \<Rightarrow> string option \<Rightarrow> hs_spi_mode_e \<Rightarrow> 32 word \<Rightarrow> u8 \<Rightarrow> world \<Rightarrow> int \<times> world"
where
  "hs_spi_init env hs_spi spi_name spi_mode spi_speed_hz spi_bits w =
     (if hs_spi = Null then (-1, w)
      else case spi_name of
        None \<Rightarrow> (-2, w)
      | Some name \<Rightarrow>
          (case sys_open env name (close_if_open (pthread_mutex_lock w)) of (fdv, w) \<Rightarrow>
           if fdv < 0 then (-3, pthread_mutex_unlock w)
           else case ioctl_config env fdv (SPI_IOC_WR_MODE spi_mode) w of (ret, w) \<Rightarrow>
           if ret < 0 then fail_close (-4) fdv w
           else case ioctl_config env fdv (SPI_IOC_RD_MODE spi_mode) w of (ret, w) \<Rightarrow>
           if ret < 0 then fail_close (-5) fdv w
           else case ioctl_config env fdv (SPI_IOC_WR_MAX_SPEED_HZ spi_speed_hz) w of (ret, w) \<Rightarrow>
           if ret < 0 then fail_close (-6) fdv w
           else case ioctl_config env fdv (SPI_IOC_RD_MAX_SPEED_HZ spi_speed_hz) w of (ret, w) \<Rightarrow>
           if ret < 0 then fail_close (-7) fdv w
           else case ioctl_config env fdv (SPI_IOC_WR_BITS_PER_WORD spi_bits) w of (ret, w) \<Rightarrow>
           if ret < 0 then fail_close (-8) fdv w
           else case ioctl_config env fdv (SPI_IOC_RD_BITS_PER_WORD spi_bits) w of (ret, w) \<Rightarrow>
           if ret < 0 then fail_close (-9) fdv w
           else (0, pthread_mutex_unlock
                      (set_max_len (if max_transfer_len (hs w) = 0 then 4096
                                    else max_transfer_len (hs w))
                         (set_fd fdv w)))))"

definition hs_spi_destroy :: "hs_spi_ptr \<Rightarrow> world \<Rightarrow> int \<times> world" where
  "hs_spi_destroy hs_spi w =
     (if hs_spi = Null then (-1, w)
      else (0, emit Free_handle
                 (emit Mutex_destroy
                    (pthread_mutex_unlock (close_if_open (pthread_mutex_lock w))))))"

definition hs_spi_set_cs_control_cb ::
  "hs_spi_ptr \<Rightarrow> hs_spi_cs_control_cb option \<Rightarrow> world \<Rightarrow> int \<times> world"
where
  "hs_spi_set_cs_control_cb hs_spi cb w =
     (if hs_spi = Null then (-1, w)
      else (0, pthread_mutex_unlock (set_cb cb (pthread_mutex_lock w))))"

definition hs_spi_set_max_transfer_len :: "hs_spi_ptr \<Rightarrow> nat \<Rightarrow> world \<Rightarrow> int \<times> world" where
  "hs_spi_set_max_transfer_len hs_spi max_len w =
     (if hs_spi = Null then (-1, w)
      else (0, pthread_mutex_unlock
                 (set_max_len (if max_len = 0 then 4096 else max_len) (pthread_mutex_lock w))))"

section \<open>The transfer engine\<close>

text \<open>
  The six transfer functions each contain the same \<open>while (remain_data_len > 0)\<close> loop;
  the copies differ only in the transfer descriptors they fill. \<open>transfer_loop\<close> is that
  loop, with the body's descriptors as the parameter \<open>spi_transfer\<close>, a function of
  \<open>remain_data_len\<close>, \<open>data_offset\<close> and \<open>current_len\<close>. It reads \<open>max_transfer_len\<close>
  and \<open>fd\<close> from the handle in every iteration, as the source does. The result is
  \<open>Inl\<close> when an ioctl failed (the caller then runs that function's failure exit) and
  \<open>Inr\<close> with the final \<open>remain_data_len\<close> when the loop condition became false.
  With \<open>max_transfer_len = 0\<close> the source's loop makes no progress and runs for as long
  as the ioctl succeeds; not returning is the value \<open>None\<close>.
\<close>

partial_function (option) transfer_loop ::
  "sys \<Rightarrow> (nat \<Rightarrow> nat \<Rightarrow> nat \<Rightarrow> spi_ioc_transfer list) \<Rightarrow> nat \<Rightarrow> nat \<Rightarrow> world
     \<Rightarrow> (world + nat \<times> world) option"
where
  "transfer_loop env spi_transfer data_len remain_data_len w =
     (if remain_data_len > 0 then
        let current_len = (if remain_data_len > max_transfer_len (hs w)
                           then max_transfer_len (hs w) else remain_data_len);
            data_offset = data_len - remain_data_len;
            rw = ioctl_message env (fd (hs w))
                   (spi_transfer remain_data_len data_offset current_len) w
        in if fst rw < 0 then Some (Inl (snd rw))
           else transfer_loop env spi_transfer data_len (remain_data_len - current_len) (snd rw)
      else Some (Inr (remain_data_len, w)))"

declare transfer_loop.simps [code]

text \<open>The descriptor a loop body fills: \<open>{0}\<close>, then \<open>tx_buf\<close>, \<open>rx_buf\<close>, \<open>len\<close>, \<open>cs_change = 0\<close>.\<close>

definition transfer :: "ptr option \<Rightarrow> ptr option \<Rightarrow> nat \<Rightarrow> spi_ioc_transfer" where
  "transfer tx rx n = \<lparr>tx_buf = tx, rx_buf = rx, len = n, cs_change = 0\<rparr>"

text \<open>\<open>spi_transfer[0]\<close> of the register-addressed functions before their loop.\<close>

definition reg_addr_transfer :: spi_ioc_transfer where
  "reg_addr_transfer = transfer (Some (Reg_addr, 0)) None 1"

text \<open>The parameter \<open>reg_addr\<close> as a one-byte buffer, from where its address is taken.\<close>

definition bind_reg_addr :: "u8 \<Rightarrow> world \<Rightarrow> world" where
  "bind_reg_addr reg_addr w = w\<lparr>mem := (mem w)(Reg_addr := [reg_addr])\<rparr>"

definition hs_spi_write_data ::
  "sys \<Rightarrow> hs_spi_ptr \<Rightarrow> nat option \<Rightarrow> nat \<Rightarrow> world \<Rightarrow> (int \<times> world) option"
where
  "hs_spi_write_data env hs_spi write_data write_data_len w =
     (if hs_spi = Null then Some (-1, w)
      else case write_data of
        None \<Rightarrow> Some (-2, w)
      | Some wd \<Rightarrow>
          if write_data_len = 0 then Some (-3, w)
          else let w = pthread_mutex_lock w in
          if fd (hs w) < 0 then Some (-4, pthread_mutex_unlock w)
          else case hs_spi_cs_control hs_spi True w of (r, w) \<Rightarrow>
          if r < 0 then Some (-5, pthread_mutex_unlock w)
          else (case transfer_loop env
                      (\<lambda>remain_data_len data_offset current_len.
                         [transfer (Some (Caller wd, data_offset)) None current_len])
                      write_data_len write_data_len w of
            None \<Rightarrow> None
          | Some (Inl w) \<Rightarrow>
              Some (-6, pthread_mutex_unlock (snd (hs_spi_cs_control hs_spi False w)))
          | Some (Inr (remain_data_len, w)) \<Rightarrow>
              let w = snd (hs_spi_cs_control hs_spi False w) in
              if remain_data_len \<noteq> 0 then Some (-7, pthread_mutex_unlock w)
              else Some (0, pthread_mutex_unlock w)))"

definition hs_spi_read_data ::
  "sys \<Rightarrow> hs_spi_ptr \<Rightarrow> nat option \<Rightarrow> nat \<Rightarrow> world \<Rightarrow> (int \<times> world) option"
where
  "hs_spi_read_data env hs_spi read_data read_data_len w =
     (if hs_spi = Null then Some (-1, w)
      else case read_data of
        None \<Rightarrow> Some (-2, w)
      | Some rd \<Rightarrow>
          if read_data_len = 0 then Some (-3, w)
          else let w = pthread_mutex_lock w in
          if fd (hs w) < 0 then Some (-4, pthread_mutex_unlock w)
          else case hs_spi_cs_control hs_spi True w of (r, w) \<Rightarrow>
          if r < 0 then Some (-5, pthread_mutex_unlock w)
          else (case transfer_loop env
                      (\<lambda>remain_data_len data_offset current_len.
                         [transfer None (Some (Caller rd, data_offset)) current_len])
                      read_data_len read_data_len w of
            None \<Rightarrow> None
          | Some (Inl w) \<Rightarrow>
              Some (-6, pthread_mutex_unlock (snd (hs_spi_cs_control hs_spi False w)))
          | Some (Inr (remain_data_len, w)) \<Rightarrow>
              let w = snd (hs_spi_cs_control hs_spi False w) in
              if remain_data_len \<noteq> 0 then Some (-7, pthread_mutex_unlock w)
              else Some (0, pthread_mutex_unlock w)))"

definition hs_spi_write_read_data ::
  "sys \<Rightarrow> hs_spi_ptr \<Rightarrow> nat option \<Rightarrow> nat \<Rightarrow> nat option \<Rightarrow> nat \<Rightarrow> world
     \<Rightarrow> (int \<times> world) option"
where
  "hs_spi_write_read_data env hs_spi write_data write_data_len read_data read_data_len w =
     (if hs_spi = Null then Some (-1, w)
      else case write_data of
        None \<Rightarrow> Some (-2, w)
      | Some wd \<Rightarrow>
          if write_data_len = 0 then Some (-3, w)
          else (case read_data of
            None \<Rightarrow> Some (-4, w)
          | Some rd \<Rightarrow>
              if read_data_len = 0 then Some (-5, w)
              else let w = pthread_mutex_lock w in
              if fd (hs w) < 0 then Some (-6, pthread_mutex_unlock w)
              else let transfer_len = (if write_data_len > read_data_len then write_data_len
                                       else read_data_len) in
              case malloc env Tx_scratch transfer_len w of (tx_ok, w) \<Rightarrow>
              if \<not> tx_ok then Some (-7, pthread_mutex_unlock w)
              else let w = memcpy Tx_scratch (Caller wd) write_data_len
                             (memset Tx_scratch 0 transfer_len w) in
              case malloc env Rx_scratch transfer_len w of (rx_ok, w) \<Rightarrow>
              if \<not> rx_ok then Some (-8, pthread_mutex_unlock (free Tx_scratch w))
              else let w = memset Rx_scratch 0 transfer_len w in
              case hs_spi_cs_control hs_spi True w of (r, w) \<Rightarrow>
              if r < 0
              then Some (-9, pthread_mutex_unlock (free Rx_scratch (free Tx_scratch w)))
              else (case transfer_loop env
                          (\<lambda>remain_data_len data_offset current_len.
                             [transfer (Some (Tx_scratch, data_offset))
                                (Some (Rx_scratch, data_offset)) current_len])
                          transfer_len transfer_len w of
                None \<Rightarrow> None
              | Some (Inl w) \<Rightarrow>
                  Some (-10, pthread_mutex_unlock
                               (snd (hs_spi_cs_control hs_spi False
                                       (free Rx_scratch (free Tx_scratch w)))))
              | Some (Inr (remain_data_len, w)) \<Rightarrow>
                  let w = snd (hs_spi_cs_control hs_spi False w) in
                  if remain_data_len \<noteq> 0
                  then Some (-11, pthread_mutex_unlock (free Rx_scratch (free Tx_scratch w)))
                  else Some (0, pthread_mutex_unlock
                                  (free Rx_scratch
                                     (free Tx_scratch
                                        (memcpy (Caller rd) Rx_scratch read_data_len w)))))))"

definition hs_spi_write_data_sub ::
  "sys \<Rightarrow> hs_spi_ptr \<Rightarrow> u8 \<Rightarrow> nat option \<Rightarrow> nat \<Rightarrow> world \<Rightarrow> (int \<times> world) option"
where
  "hs_spi_write_data_sub env hs_spi reg_addr write_data write_data_len w =
     (if hs_spi = Null then Some (-1, w)
      else case write_data of
        None \<Rightarrow> Some (-2, w)
      | Some wd \<Rightarrow>
          if write_data_len = 0 then Some (-3, w)
          else let w = pthread_mutex_lock w in
          if fd (hs w) < 0 then Some (-4, pthread_mutex_unlock w)
          else case hs_spi_cs_control hs_spi True w of (r, w) \<Rightarrow>
          if r < 0 then Some (-5, pthread_mutex_unlock w)
          else (case transfer_loop env
                      (\<lambda>remain_data_len data_offset current_len.
                         if remain_data_len = write_data_len
                         then [reg_addr_transfer,
                               transfer (Some (Caller wd, data_offset)) None current_len]
                         else [transfer (Some (Caller wd, data_offset)) None current_len])
                      write_data_len write_data_len (bind_reg_addr reg_addr w) of
            None \<Rightarrow> None
          | Some (Inl w) \<Rightarrow>
              Some (-6, pthread_mutex_unlock (snd (hs_spi_cs_control hs_spi False w)))
          | Some (Inr (remain_data_len, w)) \<Rightarrow>
              let w = snd (hs_spi_cs_control hs_spi False w) in
              if remain_data_len \<noteq> 0 then Some (-7, pthread_mutex_unlock w)
              else Some (0, pthread_mutex_unlock w)))"

definition hs_spi_read_data_sub ::
  "sys \<Rightarrow> hs_spi_ptr \<Rightarrow> u8 \<Rightarrow> nat option \<Rightarrow> nat \<Rightarrow> world \<Rightarrow> (int \<times> world) option"
where
  "hs_spi_read_data_sub env hs_spi reg_addr rad_data read_data_len w =
     (if hs_spi = Null then Some (-1, w)
      else case rad_data of
        None \<Rightarrow> Some (-2, w)
      | Some rd \<Rightarrow>
          if read_data_len = 0 then Some (-3, w)
          else let w = pthread_mutex_lock w in
          if fd (hs w) < 0 then Some (-4, pthread_mutex_unlock w)
          else case hs_spi_cs_control hs_spi True w of (r, w) \<Rightarrow>
          if r < 0 then Some (-5, pthread_mutex_unlock w)
          else (case transfer_loop env
                      (\<lambda>remain_data_len data_offset current_len.
                         if remain_data_len = read_data_len
                         then [reg_addr_transfer,
                               transfer None (Some (Caller rd, data_offset)) current_len]
                         else [transfer None (Some (Caller rd, data_offset)) current_len])
                      read_data_len read_data_len (bind_reg_addr reg_addr w) of
            None \<Rightarrow> None
          | Some (Inl w) \<Rightarrow>
              Some (-6, pthread_mutex_unlock (snd (hs_spi_cs_control hs_spi False w)))
          | Some (Inr (remain_data_len, w)) \<Rightarrow>
              let w = snd (hs_spi_cs_control hs_spi False w) in
              if remain_data_len \<noteq> 0 then Some (-7, pthread_mutex_unlock w)
              else Some (0, pthread_mutex_unlock w)))"

definition hs_spi_write_read_data_sub ::
  "sys \<Rightarrow> hs_spi_ptr \<Rightarrow> u8 \<Rightarrow> nat option \<Rightarrow> nat \<Rightarrow> nat option \<Rightarrow> nat \<Rightarrow> world
     \<Rightarrow> (int \<times> world) option"
where
  "hs_spi_write_read_data_sub env hs_spi reg_addr write_data write_data_len
       read_data read_data_len w =
     (if hs_spi = Null then Some (-1, w)
      else case write_data of
        None \<Rightarrow> Some (-2, w)
      | Some wd \<Rightarrow>
          if write_data_len = 0 then Some (-3, w)
          else (case read_data of
            None \<Rightarrow> Some (-4, w)
          | Some rd \<Rightarrow>
              if read_data_len = 0 then Some (-5, w)
              else let w = pthread_mutex_lock w in
              if fd (hs w) < 0 then Some (-6, pthread_mutex_unlock w)
              else let transfer_len = (if write_data_len > read_data_len then write_data_len
                                       else read_data_len) in
              case malloc env Tx_scratch transfer_len w of (tx_ok, w) \<Rightarrow>
              if \<not> tx_ok then Some (-7, pthread_mutex_unlock w)
              else let w = memcpy Tx_scratch (Caller wd) write_data_len
                             (memset Tx_scratch 0 transfer_len w) in
              case malloc env Rx_scratch transfer_len w of (rx_ok, w) \<Rightarrow>
              if \<not> rx_ok then Some (-8, pthread_mutex_unlock (free Tx_scratch w))
              else let w = memset Rx_scratch 0 transfer_len w in
              case hs_spi_cs_control hs_spi True w of (r, w) \<Rightarrow>
              if r < 0
              then Some (-9, pthread_mutex_unlock (free Rx_scratch (free Tx_scratch w)))
              else (case transfer_loop env
                          (\<lambda>remain_data_len data_offset current_len.
                             if remain_data_len = transfer_len
                             then [reg_addr_transfer,
                                   transfer (Some (Tx_scratch, data_offset))
                                     (Some (Rx_scratch, data_offset)) current_len]
                             else [transfer (Some (Tx_scratch, data_offset))
                                     (Some (Rx_scratch, data_offset)) current_len])
                          transfer_len transfer_len (bind_reg_addr reg_addr w) of
                None \<Rightarrow> None
              | Some (Inl w) \<Rightarrow>
                  Some (-10, pthread_mutex_unlock
                               (snd (hs_spi_cs_control hs_spi False
                                       (free Rx_scratch (free Tx_scratch w)))))
              | Some (Inr (remain_data_len, w)) \<Rightarrow>
                  let w = snd (hs_spi_cs_control hs_spi False w) in
                  if remain_data_len \<noteq> 0
                  then Some (-11, pthread_mutex_unlock (free Rx_scratch (free Tx_scratch w)))
                  else Some (0, pthread_mutex_unlock
                                  (free Rx_scratch
                                     (free Tx_scratch
                                        (memcpy (Caller rd) Rx_scratch read_data_len w)))))))"

section \<open>Calls of the public interface\<close>

text \<open>One call of one of the six transfer functions, with its arguments.\<close>

datatype transfer_call =
    Write_data "nat option" nat
  | Read_data "nat option" nat
  | Write_read_data "nat option" nat "nat option" nat
  | Write_data_sub u8 "nat option" nat
  | Read_data_sub u8 "nat option" nat
  | Write_read_data_sub u8 "nat option" nat "nat option" nat

fun hs_spi_transfer ::
  "sys \<Rightarrow> hs_spi_ptr \<Rightarrow> transfer_call \<Rightarrow> world \<Rightarrow> (int \<times> world) option"
where
  "hs_spi_transfer env p (Write_data wd wl) w = hs_spi_write_data env p wd wl w"
| "hs_spi_transfer env p (Read_data rd rl) w = hs_spi_read_data env p rd rl w"
| "hs_spi_transfer env p (Write_read_data wd wl rd rl) w =
     hs_spi_write_read_data env p wd wl rd rl w"
| "hs_spi_transfer env p (Write_data_sub a wd wl) w = hs_spi_write_data_sub env p a wd wl w"
| "hs_spi_transfer env p (Read_data_sub a rd rl) w = hs_spi_read_data_sub env p a rd rl w"
| "hs_spi_transfer env p (Write_read_data_sub a wd wl rd rl) w =
     hs_spi_write_read_data_sub env p a wd wl rd rl w"

text \<open>One call of any function that takes a handle.\<close>

datatype api_call =
    Init "string option" hs_spi_mode_e "32 word" u8
  | Destroy
  | Set_cs_control_cb "hs_spi_cs_control_cb option"
  | Set_max_transfer_len nat
  | Transfer transfer_call

fun api_step :: "sys \<Rightarrow> hs_spi_ptr \<Rightarrow> api_call \<Rightarrow> world \<Rightarrow> (int \<times> world) option" where
  "api_step env p (Init name mode speed bits) w = Some (hs_spi_init env p name mode speed bits w)"
| "api_step env p Destroy w = Some (hs_spi_destroy p w)"
| "api_step env p (Set_cs_control_cb cb) w = Some (hs_spi_set_cs_control_cb p cb w)"
| "api_step env p (Set_max_transfer_len n) w = Some (hs_spi_set_max_transfer_len p n w)"
| "api_step env p (Transfer c) w = hs_spi_transfer env p c w"

text \<open>
  A sequence of calls, each with the handle pointer it passes; \<open>None\<close> when one of them
  does not return. \<open>hs_spi_destroy\<close> frees the handle, which the caller must not use
  again; the model lets a sequence go on after it, on the fields as \<open>hs_spi_destroy\<close>
  left them, which can only add states.
\<close>

fun api_run :: "sys \<Rightarrow> (hs_spi_ptr \<times> api_call) list \<Rightarrow> world \<Rightarrow> world option" where
  "api_run env [] w = Some w"
| "api_run env ((p, c) # cs) w =
     (case api_step env p c w of None \<Rightarrow> None | Some (r, w') \<Rightarrow> api_run env cs w')"

section \<open>Reading a trace\<close>

text \<open>The events a call added to the trace.\<close>

definition new_events :: "world \<Rightarrow> world \<Rightarrow> event list" where
  "new_events w w' = drop (length (trace w)) (trace w')"

text \<open>The native transfer calls of a trace, each as its list of descriptors.\<close>

fun ioctl_messages :: "event list \<Rightarrow> spi_ioc_transfer list list" where
  "ioctl_messages [] = []"
| "ioctl_messages (Ioctl_message fdv msg # es) = msg # ioctl_messages es"
| "ioctl_messages (e # es) = ioctl_messages es"

text \<open>The arguments of the chip-select callback's invocations, in order.\<close>

fun cs_calls :: "event list \<Rightarrow> bool list" where
  "cs_calls [] = []"
| "cs_calls (Cs_control_cb enable # es) = enable # cs_calls es"
| "cs_calls (e # es) = cs_calls es"

text \<open>A descriptor that transmits the register address, and the others, which carry data.\<close>

definition is_reg_addr :: "spi_ioc_transfer \<Rightarrow> bool" where
  "is_reg_addr d = (tx_buf d = Some (Reg_addr, 0))"


text \<open>The offset of a data descriptor in its buffer, and the bytes it covers.\<close>

definition data_offset :: "spi_ioc_transfer \<Rightarrow> nat" where
  "data_offset d =
     (case tx_buf d of
        Some (r, off) \<Rightarrow> off
      | None \<Rightarrow> (case rx_buf d of Some (r, off) \<Rightarrow> off | None \<Rightarrow> 0))"


text \<open>
  The payload length of a call (spec, algorithm step 3): the single buffer length, and
  the larger of the two lengths for a full-duplex call.
\<close>

fun payload_len :: "transfer_call \<Rightarrow> nat" where
  "payload_len (Write_data wd wl) = wl"
| "payload_len (Read_data rd rl) = rl"
| "payload_len (Write_read_data wd wl rd rl) = max wl rl"
| "payload_len (Write_data_sub a wd wl) = wl"
| "payload_len (Read_data_sub a rd rl) = rl"
| "payload_len (Write_read_data_sub a wd wl rd rl) = max wl rl"

fun is_sub :: "transfer_call \<Rightarrow> bool" where
  "is_sub (Write_data_sub a wd wl) = True"
| "is_sub (Read_data_sub a rd rl) = True"
| "is_sub (Write_read_data_sub a wd wl rd rl) = True"
| "is_sub c = False"

fun is_duplex :: "transfer_call \<Rightarrow> bool" where
  "is_duplex (Write_read_data wd wl rd rl) = True"
| "is_duplex (Write_read_data_sub a wd wl rd rl) = True"
| "is_duplex c = False"

text \<open>
  The buffer arguments of a call, each pointer with its length, in the order of the
  parameter list; and the preconditions of the spec (handle non-null, data pointers
  non-null, lengths non-zero) as the list of their truth values, in that order.
\<close>

fun data_args :: "transfer_call \<Rightarrow> (nat option \<times> nat) list" where
  "data_args (Write_data wd wl) = [(wd, wl)]"
| "data_args (Read_data rd rl) = [(rd, rl)]"
| "data_args (Write_read_data wd wl rd rl) = [(wd, wl), (rd, rl)]"
| "data_args (Write_data_sub a wd wl) = [(wd, wl)]"
| "data_args (Read_data_sub a rd rl) = [(rd, rl)]"
| "data_args (Write_read_data_sub a wd wl rd rl) = [(wd, wl), (rd, rl)]"

definition preconditions :: "hs_spi_ptr \<Rightarrow> transfer_call \<Rightarrow> bool list" where
  "preconditions p c =
     (p \<noteq> Null) # concat (map (\<lambda>(buf, n). [buf \<noteq> None, n \<noteq> 0]) (data_args c))"

section \<open>Auxiliary definitions\<close>

text \<open>
  The iterations of the loop when no ioctl fails and \<open>max_transfer_len = c > 0\<close>, each as
  \<open>(remain_data_len, data_offset, current_len)\<close>.
\<close>

function iterations :: "nat \<Rightarrow> nat \<Rightarrow> nat \<Rightarrow> (nat \<times> nat \<times> nat) list" where
  "iterations c dl remain =
     (if c = 0 \<or> remain = 0 then []
      else (remain, dl - remain, if remain > c then c else remain)
           # iterations c dl (remain - (if remain > c then c else remain)))"
  by pat_completeness auto
termination
  by (relation "measure (\<lambda>(c, dl, remain). remain)") auto

declare iterations.simps [simp del]

text \<open>The world a loop result carries.\<close>

definition loop_world :: "world + nat \<times> world \<Rightarrow> world" where
  "loop_world res = (case res of Inl w \<Rightarrow> w | Inr (r, w) \<Rightarrow> w)"

text \<open>The message of one iteration.\<close>

definition step_msg ::
  "(nat \<Rightarrow> nat \<Rightarrow> nat \<Rightarrow> spi_ioc_transfer list) \<Rightarrow> nat \<times> nat \<times> nat \<Rightarrow> spi_ioc_transfer list"
where
  "step_msg msg it = (case it of (r, off, cur) \<Rightarrow> msg r off cur)"

text \<open>The part of \<open>hs_spi_write_data\<close>, \<open>hs_spi_read_data\<close> and their \<open>_sub\<close> variants after
  the argument checks, which they share up to the descriptors \<open>msg\<close> and the binding \<open>pre\<close>
  of \<open>reg_addr\<close>.\<close>

definition simple_body ::
  "sys \<Rightarrow> hs_spi_ptr \<Rightarrow> (world \<Rightarrow> world) \<Rightarrow> (nat \<Rightarrow> nat \<Rightarrow> nat \<Rightarrow> spi_ioc_transfer list)
     \<Rightarrow> nat \<Rightarrow> world \<Rightarrow> (int \<times> world) option"
where
  "simple_body env p pre msg dl w =
     (let w = pthread_mutex_lock w in
      if fd (hs w) < 0 then Some (-4, pthread_mutex_unlock w)
      else case hs_spi_cs_control p True w of (r, w) \<Rightarrow>
      if r < 0 then Some (-5, pthread_mutex_unlock w)
      else (case transfer_loop env msg dl dl (pre w) of
              None \<Rightarrow> None
            | Some (Inl w) \<Rightarrow>
                Some (-6, pthread_mutex_unlock (snd (hs_spi_cs_control p False w)))
            | Some (Inr (remain_data_len, w)) \<Rightarrow>
                let w = snd (hs_spi_cs_control p False w) in
                if remain_data_len \<noteq> 0 then Some (-7, pthread_mutex_unlock w)
                else Some (0, pthread_mutex_unlock w)))"

text \<open>The event of one call of \<open>hs_spi_cs_control\<close>: none when no callback is set.\<close>

definition cs_events :: "hs_spi_t \<Rightarrow> bool \<Rightarrow> event list" where
  "cs_events h enable = (case cs_control_cb h of None \<Rightarrow> [] | Some cb \<Rightarrow> [Cs_control_cb enable])"

text \<open>The part of \<open>hs_spi_write_read_data\<close> and \<open>hs_spi_write_read_data_sub\<close> after the
  argument checks, which they share in the same way.\<close>

definition duplex_body ::
  "sys \<Rightarrow> hs_spi_ptr \<Rightarrow> (world \<Rightarrow> world) \<Rightarrow> (nat \<Rightarrow> nat \<Rightarrow> nat \<Rightarrow> nat \<Rightarrow> spi_ioc_transfer list)
     \<Rightarrow> nat \<Rightarrow> nat \<Rightarrow> nat \<Rightarrow> nat \<Rightarrow> world \<Rightarrow> (int \<times> world) option"
where
  "duplex_body env p pre msg wd wl rd rl w =
     (let w = pthread_mutex_lock w in
      if fd (hs w) < 0 then Some (-6, pthread_mutex_unlock w)
      else let transfer_len = (if wl > rl then wl else rl) in
      case malloc env Tx_scratch transfer_len w of (tx_ok, w) \<Rightarrow>
      if \<not> tx_ok then Some (-7, pthread_mutex_unlock w)
      else let w = memcpy Tx_scratch (Caller wd) wl (memset Tx_scratch 0 transfer_len w) in
      case malloc env Rx_scratch transfer_len w of (rx_ok, w) \<Rightarrow>
      if \<not> rx_ok then Some (-8, pthread_mutex_unlock (free Tx_scratch w))
      else let w = memset Rx_scratch 0 transfer_len w in
      case hs_spi_cs_control p True w of (r, w) \<Rightarrow>
      if r < 0 then Some (-9, pthread_mutex_unlock (free Rx_scratch (free Tx_scratch w)))
      else (case transfer_loop env (msg transfer_len) transfer_len transfer_len (pre w) of
              None \<Rightarrow> None
            | Some (Inl w) \<Rightarrow>
                Some (-10, pthread_mutex_unlock
                             (snd (hs_spi_cs_control p False
                                     (free Rx_scratch (free Tx_scratch w)))))
            | Some (Inr (remain_data_len, w)) \<Rightarrow>
                let w = snd (hs_spi_cs_control p False w) in
                if remain_data_len \<noteq> 0
                then Some (-11, pthread_mutex_unlock (free Rx_scratch (free Tx_scratch w)))
                else Some (0, pthread_mutex_unlock
                                (free Rx_scratch
                                   (free Tx_scratch (memcpy (Caller rd) Rx_scratch rl w))))))"

text \<open>
  The codes of the exits that every transfer function has: descriptor not open,
  chip-select assertion failed, an ioctl failed, bytes remaining after the loop. The
  full-duplex functions also return -7 and -8, when the allocation of \<open>tx_buf\<close> and of
  \<open>rx_buf\<close> fails.
\<close>

definition fd_code :: "transfer_call \<Rightarrow> int" where
  "fd_code c = (if is_duplex c then -6 else -4)"




text \<open>The data descriptor of a call for one chunk, and the message of one iteration.\<close>

definition data_transfer :: "transfer_call \<Rightarrow> nat \<Rightarrow> nat \<Rightarrow> spi_ioc_transfer" where
  "data_transfer c off cur =
     (case c of
        Write_data wd wl \<Rightarrow> transfer (map_option (\<lambda>b. (Caller b, off)) wd) None cur
      | Read_data rd rl \<Rightarrow> transfer None (map_option (\<lambda>b. (Caller b, off)) rd) cur
      | Write_read_data wd wl rd rl \<Rightarrow>
          transfer (Some (Tx_scratch, off)) (Some (Rx_scratch, off)) cur
      | Write_data_sub a wd wl \<Rightarrow> transfer (map_option (\<lambda>b. (Caller b, off)) wd) None cur
      | Read_data_sub a rd rl \<Rightarrow> transfer None (map_option (\<lambda>b. (Caller b, off)) rd) cur
      | Write_read_data_sub a wd wl rd rl \<Rightarrow>
          transfer (Some (Tx_scratch, off)) (Some (Rx_scratch, off)) cur)"

definition call_msg :: "transfer_call \<Rightarrow> nat \<Rightarrow> nat \<Rightarrow> nat \<Rightarrow> spi_ioc_transfer list" where
  "call_msg c r off cur =
     (if is_sub c \<and> r = payload_len c then [reg_addr_transfer, data_transfer c off cur]
      else [data_transfer c off cur])"

text \<open>
  The events of one run of a transfer function that passed the argument checks, by the
  code \<open>r\<close> it returns: \<open>dup\<close> says whether the function is a full-duplex one, \<open>L\<close> is
  the payload length and \<open>msg\<close> the message of an iteration.
\<close>

definition run_shape ::
  "sys \<Rightarrow> hs_spi_t \<Rightarrow> bool \<Rightarrow> nat \<Rightarrow> (nat \<Rightarrow> nat \<Rightarrow> nat \<Rightarrow> spi_ioc_transfer list)
     \<Rightarrow> int \<Rightarrow> event list \<Rightarrow> bool"
where
  "run_shape env h dup L msg r new =
    ((r = (if dup then -6 else -4) \<and> fd h < 0 \<and> new = [Mutex_lock, Mutex_unlock]) \<or>
     (dup \<and> r = -7 \<and> 0 \<le> fd h \<and> (\<exists>tr. \<not> malloc_ok env tr) \<and>
        new = [Mutex_lock, Malloc Tx_scratch L, Mutex_unlock]) \<or>
     (dup \<and> r = -8 \<and> 0 \<le> fd h \<and> (\<exists>tr. \<not> malloc_ok env tr) \<and>
        new = [Mutex_lock, Malloc Tx_scratch L, Malloc Rx_scratch L, Free Tx_scratch,
               Mutex_unlock]) \<or>
     (r = (if dup then -9 else -5) \<and> 0 \<le> fd h \<and>
        (\<exists>cb tr. cs_control_cb h = Some cb \<and> cb tr True < 0) \<and>
        new = [Mutex_lock] @ (if dup then [Malloc Tx_scratch L, Malloc Rx_scratch L] else [])
                @ [Cs_control_cb True] @ (if dup then [Free Tx_scratch, Free Rx_scratch] else [])
                @ [Mutex_unlock]) \<or>
     (r = (if dup then -10 else -6) \<and> 0 \<le> fd h \<and> (\<exists>tr. sys_ret env tr < 0) \<and>
        (\<exists>ms. new = [Mutex_lock] @ (if dup then [Malloc Tx_scratch L, Malloc Rx_scratch L] else [])
                 @ cs_events h True @ map (Ioctl_message (fd h)) ms
                 @ (if dup then [Free Tx_scratch, Free Rx_scratch] else [])
                 @ cs_events h False @ [Mutex_unlock] \<and>
             (0 < max_transfer_len h \<longrightarrow>
                (\<exists>k \<le> length (iterations (max_transfer_len h) L L).
                   0 < k \<and> ms = map (step_msg msg) (take k (iterations (max_transfer_len h) L L)))))) \<or>
     (r = 0 \<and> 0 \<le> fd h \<and>
        (\<exists>ms. new = [Mutex_lock] @ (if dup then [Malloc Tx_scratch L, Malloc Rx_scratch L] else [])
                 @ cs_events h True @ map (Ioctl_message (fd h)) ms
                 @ cs_events h False @ (if dup then [Free Tx_scratch, Free Rx_scratch] else [])
                 @ [Mutex_unlock] \<and>
             (0 < max_transfer_len h \<longrightarrow>
                ms = map (step_msg msg) (iterations (max_transfer_len h) L L)))))"

text \<open>
  An environment in which every call succeeds (system calls return 3, allocations
  succeed, the bus delivers the byte \<open>0xA5\<close>), and a world whose handle is open on
  descriptor 3, with the given chunk size, callback and buffer contents.
\<close>

definition env_ok :: sys where
  "env_ok = \<lparr>sys_ret = (\<lambda>tr. 3), malloc_ok = (\<lambda>tr. True), malloc_junk = (\<lambda>tr i. 255),
             spi_miso = (\<lambda>tr k i. 165)\<rparr>"

definition world_open ::
  "nat \<Rightarrow> hs_spi_cs_control_cb option \<Rightarrow> (region \<Rightarrow> u8 list) \<Rightarrow> world"
where
  "world_open n cb m =
     \<lparr>hs = \<lparr>fd = 3, cs_control_cb = cb, max_transfer_len = n\<rparr>, mem = m, trace = []\<rparr>"

text \<open>Two callbacks, one that always succeeds and one that always fails, and empty buffers.\<close>

definition cb_ok :: hs_spi_cs_control_cb where
  "cb_ok tr enable = 0"


definition mem_empty :: "region \<Rightarrow> u8 list" where
  "mem_empty r = []"

text \<open>Buffers for a full-duplex example: three bytes to write, two bytes to read into.\<close>

definition mem_duplex :: "region \<Rightarrow> u8 list" where
  "mem_duplex r = (case r of Caller n \<Rightarrow> (if n = 0 then [1, 2, 3] else [9, 9]) | _ \<Rightarrow> [])"

text \<open>
  The configuration requests of \<open>hs_spi_init\<close>, in the order of the source, and the
  events of \<open>hs_spi_init\<close> up to its call of \<open>open\<close>: the lock, the closing of a
  descriptor that is open, the call of \<open>open\<close>.
\<close>

definition init_requests :: "hs_spi_mode_e \<Rightarrow> 32 word \<Rightarrow> u8 \<Rightarrow> spi_req list" where
  "init_requests mode speed bits =
     [SPI_IOC_WR_MODE mode, SPI_IOC_RD_MODE mode,
      SPI_IOC_WR_MAX_SPEED_HZ speed, SPI_IOC_RD_MAX_SPEED_HZ speed,
      SPI_IOC_WR_BITS_PER_WORD bits, SPI_IOC_RD_BITS_PER_WORD bits]"

definition init_prefix :: "hs_spi_t \<Rightarrow> string \<Rightarrow> event list" where
  "init_prefix h name = Mutex_lock # (if fd h \<noteq> -1 then [Close (fd h)] else []) @ [Open name]"

text \<open>A world whose handle is as \<open>hs_spi_create\<close> leaves it.\<close>

definition world_closed :: world where
  "world_closed =
     \<lparr>hs = \<lparr>fd = -1, cs_control_cb = None, max_transfer_len = 0\<rparr>, mem = mem_empty,
      trace = []\<rparr>"

text \<open>The invariant of the handle: an open descriptor comes with a chunk size that is not 0.\<close>

definition handle_ok :: "hs_spi_t \<Rightarrow> bool" where
  "handle_ok h = (0 \<le> fd h \<longrightarrow> 0 < max_transfer_len h)"

section \<open>Lemmas about the primitives, the loop and the bodies\<close>

lemma loop_world_simps [simp]: "loop_world (Inl w) = w" "loop_world (Inr (r, w)) = w"
  by (simp_all add: loop_world_def)

lemma transfer_loop_0: "transfer_loop env msg dl 0 w = Some (Inr (0, w))"
  by (subst transfer_loop.simps) simp

lemma transfer_loop_pos:
  "0 < remain \<Longrightarrow>
   transfer_loop env msg dl remain w =
     (let cur = (if remain > max_transfer_len (hs w) then max_transfer_len (hs w) else remain);
          rw = ioctl_message env (fd (hs w)) (msg remain (dl - remain) cur) w
      in if fst rw < 0 then Some (Inl (snd rw))
         else transfer_loop env msg dl (remain - cur) (snd rw))"
  by (subst transfer_loop.simps) simp

lemma hs_ioctl_message [simp]: "hs (snd (ioctl_message env fdv msg w)) = hs w"
  by (simp add: ioctl_message_def emit_def Let_def)

lemma trace_ioctl_message [simp]:
  "trace (snd (ioctl_message env fdv msg w)) = trace w @ [Ioctl_message fdv msg]"
  by (simp add: ioctl_message_def emit_def Let_def)

lemma rx_store_other:
  "\<forall>d \<in> set ds. \<forall>p. rx_buf d = Some p \<longrightarrow> fst p \<noteq> b \<Longrightarrow> rx_store env tr k ds m b = m b"
  by (induction ds arbitrary: k m) (auto split: option.splits)

lemma mem_ioctl_message_other:
  "\<forall>d \<in> set msg. \<forall>p. rx_buf d = Some p \<longrightarrow> fst p \<noteq> b \<Longrightarrow>
   mem (snd (ioctl_message env fdv msg w)) b = mem w b"
  by (simp add: ioctl_message_def emit_def Let_def rx_store_other)

text \<open>Partial correctness, for any chunk size.\<close>

lemma transfer_loop_frame:
  assumes "transfer_loop env msg dl remain w = Some res"
  shows "hs (loop_world res) = hs w \<and>
   (\<exists>ms. trace (loop_world res) = trace w @ map (Ioctl_message (fd (hs w))) ms) \<and>
   (\<forall>b. (\<forall>r off cur. \<forall>d \<in> set (msg r off cur). \<forall>p. rx_buf d = Some p \<longrightarrow> fst p \<noteq> b)
        \<longrightarrow> mem (loop_world res) b = mem w b)"
  using assms
proof (induct rule: transfer_loop.raw_induct [rotated, consumes 1])
  case (1 loop env msg dl remain w res)
  show ?case
  proof (cases "0 < remain")
    case False
    with 1(2) show ?thesis by auto
  next
    case True
    define cur where "cur = (if remain > max_transfer_len (hs w) then max_transfer_len (hs w) else remain)"
    define rw where "rw = ioctl_message env (fd (hs w)) (msg remain (dl - remain) cur) w"
    show ?thesis
    proof (cases "fst rw < 0")
      case neg: True
      with 1(2) True have "res = Inl (snd rw)"
        by (simp add: Let_def cur_def rw_def)
      then show ?thesis
        by (auto simp: rw_def mem_ioctl_message_other intro: exI [of _ "[_]"])
    next
      case pos: False
      with 1(2) True have "loop env msg dl (remain - cur) (snd rw) = Some res"
        by (simp add: Let_def cur_def rw_def)
      from 1(1) [OF this] obtain ms where
        h: "hs (loop_world res) = hs (snd rw)"
        and t: "trace (loop_world res) = trace (snd rw) @ map (Ioctl_message (fd (hs (snd rw)))) ms"
        and m: "\<forall>b. (\<forall>r off cur. \<forall>d \<in> set (msg r off cur). \<forall>p. rx_buf d = Some p \<longrightarrow> fst p \<noteq> b)
        \<longrightarrow> mem (loop_world res) b = mem (snd rw) b"
        by blast
      have "trace (loop_world res) = trace w @ map (Ioctl_message (fd (hs w))) (msg remain (dl - remain) cur # ms)"
        using t by (simp add: rw_def)
      moreover have "hs (loop_world res) = hs w" using h by (simp add: rw_def)
      moreover have "\<forall>b. (\<forall>r off cur. \<forall>d \<in> set (msg r off cur). \<forall>p. rx_buf d = Some p \<longrightarrow> fst p \<noteq> b)
        \<longrightarrow> mem (loop_world res) b = mem w b"
        using m by (simp add: rw_def mem_ioctl_message_other)
      ultimately show ?thesis by blast
    qed
  qed
qed

lemma iterations_0 [simp]: "iterations c dl 0 = []"
  by (simp add: iterations.simps)

lemma iterations_pos:
  "0 < c \<Longrightarrow> 0 < remain \<Longrightarrow>
   iterations c dl remain =
     (remain, dl - remain, if remain > c then c else remain)
     # iterations c dl (remain - (if remain > c then c else remain))"
  by (subst iterations.simps) simp

lemma transfer_loop_terminates:
  "0 < max_transfer_len (hs w) \<Longrightarrow> \<exists>res. transfer_loop env msg dl remain w = Some res"
proof (induction remain arbitrary: w rule: less_induct)
  case (less remain)
  show ?case
  proof (cases "0 < remain")
    case False
    then show ?thesis by (simp add: transfer_loop_0)
  next
    case True
    define cur where "cur = (if remain > max_transfer_len (hs w) then max_transfer_len (hs w) else remain)"
    define rw where "rw = ioctl_message env (fd (hs w)) (msg remain (dl - remain) cur) w"
    have "remain - cur < remain" using True less.prems by (simp add: cur_def)
    moreover have "0 < max_transfer_len (hs (snd rw))" using less.prems by (simp add: rw_def)
    ultimately obtain res where "transfer_loop env msg dl (remain - cur) (snd rw) = Some res"
      using less.IH by blast
    then show ?thesis
      using True by (simp add: transfer_loop_pos Let_def cur_def [symmetric] rw_def [symmetric])
  qed
qed

lemma transfer_loop_messages:
  assumes "transfer_loop env msg dl remain w = Some res"
  shows "0 < max_transfer_len (hs w) \<longrightarrow>
     (\<exists>k \<le> length (iterations (max_transfer_len (hs w)) dl remain).
        trace (loop_world res) = trace w @ map (Ioctl_message (fd (hs w)) \<circ> step_msg msg)
           (take k (iterations (max_transfer_len (hs w)) dl remain)) \<and>
        (case res of Inl w' \<Rightarrow> 0 < k \<and> sys_ret env (trace w') < 0
         | Inr x \<Rightarrow> k = length (iterations (max_transfer_len (hs w)) dl remain)))"
  using assms
proof (induct rule: transfer_loop.raw_induct [rotated, consumes 1])
  case (1 loop env msg dl remain w res)
  show ?case
  proof (intro impI, cases "0 < remain")
    case False
    with 1(2) show "\<exists>k \<le> length (iterations (max_transfer_len (hs w)) dl remain).
        trace (loop_world res) = trace w @ map (Ioctl_message (fd (hs w)) \<circ> step_msg msg)
           (take k (iterations (max_transfer_len (hs w)) dl remain)) \<and>
        (case res of Inl w' \<Rightarrow> 0 < k \<and> sys_ret env (trace w') < 0
         | Inr x \<Rightarrow> k = length (iterations (max_transfer_len (hs w)) dl remain))" by auto
  next
    case True
    assume C: "0 < max_transfer_len (hs w)"
    define cur where "cur = (if remain > max_transfer_len (hs w) then max_transfer_len (hs w) else remain)"
    define rw where "rw = ioctl_message env (fd (hs w)) (msg remain (dl - remain) cur) w"
    define its where "its = iterations (max_transfer_len (hs w)) dl (remain - cur)"
    have its: "iterations (max_transfer_len (hs w)) dl remain = (remain, dl - remain, cur) # its"
      using iterations_pos [OF C True] by (simp add: cur_def its_def)
    have hsrw: "hs (snd rw) = hs w" by (simp add: rw_def)
    have neg: "fst rw < 0 \<Longrightarrow> sys_ret env (trace (snd rw)) < 0"
      by (auto simp: rw_def ioctl_message_def Let_def split: if_splits)
    show "\<exists>k \<le> length (iterations (max_transfer_len (hs w)) dl remain).
        trace (loop_world res) = trace w @ map (Ioctl_message (fd (hs w)) \<circ> step_msg msg)
           (take k (iterations (max_transfer_len (hs w)) dl remain)) \<and>
        (case res of Inl w' \<Rightarrow> 0 < k \<and> sys_ret env (trace w') < 0
         | Inr x \<Rightarrow> k = length (iterations (max_transfer_len (hs w)) dl remain))"
    proof (cases "fst rw < 0")
      case neg': True
      with 1(2) True have "res = Inl (snd rw)"
        by (simp add: Let_def cur_def rw_def)
      then show ?thesis
        using neg [OF neg'] unfolding its
        by (intro exI [of _ 1]) (simp add: rw_def step_msg_def)
    next
      case pos: False
      with 1(2) True have "loop env msg dl (remain - cur) (snd rw) = Some res"
        by (simp add: Let_def cur_def rw_def)
      note ih = 1(1) [OF this, unfolded hsrw, folded its_def]
      from ih C have "\<exists>k \<le> length its.
          trace (loop_world res) = trace (snd rw) @ map (Ioctl_message (fd (hs w)) \<circ> step_msg msg) (take k its) \<and>
          (case res of Inl w' \<Rightarrow> 0 < k \<and> sys_ret env (trace w') < 0 | Inr x \<Rightarrow> k = length its)"
        by blast
      then obtain k where k: "k \<le> length its"
        and t: "trace (loop_world res) = trace (snd rw) @ map (Ioctl_message (fd (hs w)) \<circ> step_msg msg) (take k its)"
        and r: "(case res of Inl w' \<Rightarrow> 0 < k \<and> sys_ret env (trace w') < 0 | Inr x \<Rightarrow> k = length its)"
        by blast
      show ?thesis
        unfolding its using k t r
        by (intro exI [of _ "Suc k"]) (auto simp: rw_def step_msg_def split: sum.splits)
    qed
  qed
qed

lemma transfer_loop_remain:
  assumes "transfer_loop env msg dl remain w = Some (Inr (r, w'))"
  shows "r = 0"
  using assms
proof (induct env msg dl remain w "Inr (r, w') :: world + nat \<times> world" rule: transfer_loop.raw_induct [rotated, consumes 1])
  case (1 loop env msg dl remain w)
  then show ?case
    by (auto simp: Let_def split: if_splits)
qed

lemma transfer_loop_fail:
  assumes "transfer_loop env msg dl remain w = Some (Inl w')"
  shows "sys_ret env (trace w') < 0"
  using assms
proof (induct env msg dl remain w "Inl w' :: world + nat \<times> world" rule: transfer_loop.raw_induct [rotated, consumes 1])
  case (1 loop env msg dl remain w)
  then show ?case
    by (auto simp: Let_def ioctl_message_def split: if_splits)
qed

lemma hs_spi_write_data_body:
  "hs_spi_write_data env p (Some wd) wl w =
     (if p = Null then Some (-1, w) else if wl = 0 then Some (-3, w)
      else simple_body env p (\<lambda>v. v)
             (\<lambda>r off cur. [transfer (Some (Caller wd, off)) None cur]) wl w)"
  by (simp add: hs_spi_write_data_def simple_body_def)

lemma hs_spi_read_data_body:
  "hs_spi_read_data env p (Some rd) rl w =
     (if p = Null then Some (-1, w) else if rl = 0 then Some (-3, w)
      else simple_body env p (\<lambda>v. v)
             (\<lambda>r off cur. [transfer None (Some (Caller rd, off)) cur]) rl w)"
  by (simp add: hs_spi_read_data_def simple_body_def)

lemma hs_spi_write_data_sub_body:
  "hs_spi_write_data_sub env p a (Some wd) wl w =
     (if p = Null then Some (-1, w) else if wl = 0 then Some (-3, w)
      else simple_body env p (bind_reg_addr a)
             (\<lambda>r off cur. if r = wl
                then [reg_addr_transfer, transfer (Some (Caller wd, off)) None cur]
                else [transfer (Some (Caller wd, off)) None cur]) wl w)"
  by (simp add: hs_spi_write_data_sub_def simple_body_def)

lemma hs_spi_read_data_sub_body:
  "hs_spi_read_data_sub env p a (Some rd) rl w =
     (if p = Null then Some (-1, w) else if rl = 0 then Some (-3, w)
      else simple_body env p (bind_reg_addr a)
             (\<lambda>r off cur. if r = rl
                then [reg_addr_transfer, transfer None (Some (Caller rd, off)) cur]
                else [transfer None (Some (Caller rd, off)) cur]) rl w)"
  by (simp add: hs_spi_read_data_sub_def simple_body_def)

lemma new_events_app: "trace w' = trace w @ es \<Longrightarrow> new_events w w' = es"
  by (simp add: new_events_def)

lemma hs_emit [simp]: "hs (emit e w) = hs w" and mem_emit [simp]: "mem (emit e w) = mem w"
  and trace_emit [simp]: "trace (emit e w) = trace w @ [e]"
  by (simp_all add: emit_def)

lemma hs_spi_cs_control_world [simp]:
  "hs (snd (hs_spi_cs_control Hs_spi b w)) = hs w"
  "mem (snd (hs_spi_cs_control Hs_spi b w)) = mem w"
  "trace (snd (hs_spi_cs_control Hs_spi b w)) = trace w @ cs_events (hs w) b"
  by (simp_all add: hs_spi_cs_control_def cs_events_def Let_def split: option.splits)

lemma hs_spi_cs_control_neg:
  "fst (hs_spi_cs_control Hs_spi b w) < 0 \<Longrightarrow>
   \<exists>cb. cs_control_cb (hs w) = Some cb \<and> cb (trace w @ [Cs_control_cb b]) b < 0"
  by (simp add: hs_spi_cs_control_def Let_def split: option.splits)

lemma lock_world [simp]:
  "hs (pthread_mutex_lock w) = hs w" "mem (pthread_mutex_lock w) = mem w"
  "trace (pthread_mutex_lock w) = trace w @ [Mutex_lock]"
  "hs (pthread_mutex_unlock w) = hs w" "mem (pthread_mutex_unlock w) = mem w"
  "trace (pthread_mutex_unlock w) = trace w @ [Mutex_unlock]"
  by (simp_all add: pthread_mutex_lock_def pthread_mutex_unlock_def)

text \<open>What a run of the simple body looks like.\<close>

lemma simple_body_run:
  assumes run: "simple_body env Hs_spi pre msg dl w = Some (r, w')"
    and pre: "\<And>v. hs (pre v) = hs v" "\<And>v. trace (pre v) = trace v"
  shows "hs w' = hs w \<and> run_shape env (hs w) False dl msg r (new_events w w')"
proof -
  define w1 where "w1 = pthread_mutex_lock w"
  define cs where "cs = hs_spi_cs_control Hs_spi True w1"
  show ?thesis
  proof (cases "fd (hs w) < 0")
    case True
    with run show ?thesis
      by (auto simp: simple_body_def Let_def new_events_app run_shape_def)
  next
    case fd: False
    show ?thesis
    proof (cases "fst cs < 0")
      case True
      from hs_spi_cs_control_neg [OF True [unfolded cs_def]]
      obtain cb where cb: "cs_control_cb (hs w) = Some cb"
        "cb (trace w @ [Mutex_lock, Cs_control_cb True]) True < 0"
        by (auto simp: w1_def)
      from run fd True have "r = -5" "w' = pthread_mutex_unlock (snd cs)"
        by (auto simp: simple_body_def Let_def cs_def w1_def split: prod.splits)
      then show ?thesis using fd cb
        by (auto simp: cs_def w1_def new_events_app cs_events_def run_shape_def)
    next
      case cs_ok: False
      from run fd cs_ok obtain res where
        loop: "transfer_loop env msg dl dl (pre (snd cs)) = Some res"
        by (auto simp: simple_body_def Let_def cs_def w1_def split: prod.splits option.splits)
      have hpre: "hs (pre (snd cs)) = hs w" by (simp add: pre cs_def w1_def)
      have tpre: "trace (pre (snd cs)) = trace w @ Mutex_lock # cs_events (hs w) True"
        by (simp add: pre cs_def w1_def)
      from transfer_loop_frame [OF loop] obtain ms0 where
        h: "hs (loop_world res) = hs w"
        and t0: "trace (loop_world res) = trace (pre (snd cs)) @ map (Ioctl_message (fd (hs w))) ms0"
        by (auto simp: hpre)
      have msg: "\<exists>k \<le> length (iterations (max_transfer_len (hs w)) dl dl).
            ms0 = map (step_msg msg) (take k (iterations (max_transfer_len (hs w)) dl dl)) \<and>
            (case res of Inl w' \<Rightarrow> 0 < k | Inr x \<Rightarrow> k = length (iterations (max_transfer_len (hs w)) dl dl))"
        if C: "0 < max_transfer_len (hs w)"
      proof -
        from transfer_loop_messages [OF loop, unfolded hpre] C
        obtain k where k: "k \<le> length (iterations (max_transfer_len (hs w)) dl dl)"
          and t: "trace (loop_world res) = trace (pre (snd cs))
                    @ map (Ioctl_message (fd (hs w)) \<circ> step_msg msg)
                        (take k (iterations (max_transfer_len (hs w)) dl dl))"
          and c: "(case res of Inl w' \<Rightarrow> 0 < k \<and> sys_ret env (trace w') < 0
                   | Inr x \<Rightarrow> k = length (iterations (max_transfer_len (hs w)) dl dl))"
          by blast
        have "map (Ioctl_message (fd (hs w))) ms0
                = map (Ioctl_message (fd (hs w)))
                    (map (step_msg msg) (take k (iterations (max_transfer_len (hs w)) dl dl)))"
          using t t0 by simp
        then have "ms0 = map (step_msg msg) (take k (iterations (max_transfer_len (hs w)) dl dl))"
          by (rule map_injective) (simp add: inj_def)
        with k c show ?thesis by (auto split: sum.splits)
      qed
      show ?thesis
      proof (cases res)
        case (Inl wl)
        with run fd cs_ok loop have r: "r = -6"
          and w': "w' = pthread_mutex_unlock (snd (hs_spi_cs_control Hs_spi False wl))"
          by (auto simp: simple_body_def Let_def cs_def w1_def split: prod.splits)
        have "\<exists>tr. sys_ret env tr < 0"
          using transfer_loop_fail [OF loop [unfolded Inl]] by blast
        moreover have tr': "trace w' = trace w @ Mutex_lock # cs_events (hs w) True
             @ map (Ioctl_message (fd (hs w))) ms0 @ cs_events (hs w) False @ [Mutex_unlock]"
          using t0 h by (simp add: w' Inl tpre)
        moreover have "hs w' = hs w" using h by (simp add: w' Inl)
        moreover have "\<exists>ms. new_events w w' = Mutex_lock # cs_events (hs w) True
             @ map (Ioctl_message (fd (hs w))) ms @ cs_events (hs w) False @ [Mutex_unlock] \<and>
             (0 < max_transfer_len (hs w) \<longrightarrow>
                (\<exists>k \<le> length (iterations (max_transfer_len (hs w)) dl dl).
                   0 < k \<and> ms = map (step_msg msg) (take k (iterations (max_transfer_len (hs w)) dl dl))))"
          using msg by (intro exI [of _ ms0]) (auto simp: new_events_app [OF tr'] Inl)
        ultimately show ?thesis
          using r fd by (simp add: run_shape_def)
      next
        case (Inr x)
        obtain r0 wr where x: "x = (r0, wr)" by (cases x)
        have r0: "r0 = 0" using transfer_loop_remain [OF loop [unfolded Inr x]] .
        with run fd cs_ok loop have r: "r = 0"
          and w': "w' = pthread_mutex_unlock (snd (hs_spi_cs_control Hs_spi False wr))"
          by (auto simp: simple_body_def Let_def cs_def w1_def Inr x split: prod.splits)
        have tr': "trace w' = trace w @ Mutex_lock # cs_events (hs w) True
             @ map (Ioctl_message (fd (hs w))) ms0 @ cs_events (hs w) False @ [Mutex_unlock]"
          using t0 h by (simp add: w' Inr x tpre)
        moreover have "hs w' = hs w" using h by (simp add: w' Inr x)
        moreover have "\<exists>ms. new_events w w' = Mutex_lock # cs_events (hs w) True
             @ map (Ioctl_message (fd (hs w))) ms @ cs_events (hs w) False @ [Mutex_unlock] \<and>
             (0 < max_transfer_len (hs w) \<longrightarrow>
                ms = map (step_msg msg) (iterations (max_transfer_len (hs w)) dl dl))"
          using msg by (intro exI [of _ ms0]) (auto simp: new_events_app [OF tr'] Inr x)
        ultimately show ?thesis
          using r fd by (simp add: run_shape_def)
      qed
    qed
  qed
qed

lemma hs_spi_write_read_data_body:
  "hs_spi_write_read_data env p (Some wd) wl (Some rd) rl w =
     (if p = Null then Some (-1, w) else if wl = 0 then Some (-3, w)
      else if rl = 0 then Some (-5, w)
      else duplex_body env p (\<lambda>v. v)
             (\<lambda>dl r off cur. [transfer (Some (Tx_scratch, off)) (Some (Rx_scratch, off)) cur])
             wd wl rd rl w)"
  by (simp add: hs_spi_write_read_data_def duplex_body_def)

lemma hs_spi_write_read_data_sub_body:
  "hs_spi_write_read_data_sub env p a (Some wd) wl (Some rd) rl w =
     (if p = Null then Some (-1, w) else if wl = 0 then Some (-3, w)
      else if rl = 0 then Some (-5, w)
      else duplex_body env p (bind_reg_addr a)
             (\<lambda>dl r off cur. if r = dl
                then [reg_addr_transfer,
                      transfer (Some (Tx_scratch, off)) (Some (Rx_scratch, off)) cur]
                else [transfer (Some (Tx_scratch, off)) (Some (Rx_scratch, off)) cur])
             wd wl rd rl w)"
  by (simp add: hs_spi_write_read_data_sub_def duplex_body_def)

lemma malloc_world [simp]:
  "hs (snd (malloc env b n w)) = hs w"
  "trace (snd (malloc env b n w)) = trace w @ [Malloc b n]"
  by (simp_all add: malloc_def Let_def)

lemma malloc_mem:
  "fst (malloc env b n w) \<Longrightarrow> length (mem (snd (malloc env b n w)) b) = n"
  "b' \<noteq> b \<Longrightarrow> mem (snd (malloc env b n w)) b' = mem w b'"
  by (simp_all add: malloc_def Let_def split: if_splits)

lemma malloc_fail: "\<not> fst (malloc env b n w) \<Longrightarrow> \<exists>tr. \<not> malloc_ok env tr"
  by (auto simp: malloc_def Let_def split: if_splits)

lemma free_world [simp]:
  "hs (free b w) = hs w" "mem (free b w) = mem w" "trace (free b w) = trace w @ [Free b]"
  by (simp_all add: free_def)

lemma memset_world [simp]:
  "hs (memset b c n w) = hs w" "trace (memset b c n w) = trace w"
  by (simp_all add: memset_def)

lemma memcpy_world [simp]:
  "hs (memcpy b c n w) = hs w" "trace (memcpy b c n w) = trace w"
  by (simp_all add: memcpy_def)

lemma duplex_body_run:
  fixes wl rl :: nat
  defines "L \<equiv> max wl rl"
  assumes run: "duplex_body env Hs_spi pre msg wd wl rd rl w = Some (r, w')"
    and pre: "\<And>v. hs (pre v) = hs v" "\<And>v. trace (pre v) = trace v"
  shows "hs w' = hs w \<and> run_shape env (hs w) True L (msg L) r (new_events w w')"
proof -
  have L: "(if wl > rl then wl else rl) = L" by (simp add: L_def max_def)
  define w1 where "w1 = pthread_mutex_lock w"
  have hw1: "hs w1 = hs w" by (simp add: w1_def)
  obtain ok1 w2 where m1: "malloc env Tx_scratch L w1 = (ok1, w2)" by fastforce
  define w3 where "w3 = memcpy Tx_scratch (Caller wd) wl (memset Tx_scratch 0 L w2)"
  obtain ok2 w4 where m2: "malloc env Rx_scratch L w3 = (ok2, w4)" by fastforce
  define w5 where "w5 = memset Rx_scratch 0 L w4"
  obtain rc w6 where cs: "hs_spi_cs_control Hs_spi True w5 = (rc, w6)" by fastforce
  have run': "(if fd (hs w) < 0 then Some (-6, pthread_mutex_unlock w1)
      else if \<not> ok1 then Some (-7, pthread_mutex_unlock w2)
      else if \<not> ok2 then Some (-8, pthread_mutex_unlock (free Tx_scratch w4))
      else if rc < 0 then Some (-9, pthread_mutex_unlock (free Rx_scratch (free Tx_scratch w6)))
      else (case transfer_loop env (msg L) L L (pre w6) of
              None \<Rightarrow> None
            | Some (Inl w) \<Rightarrow>
                Some (-10, pthread_mutex_unlock
                             (snd (hs_spi_cs_control Hs_spi False
                                     (free Rx_scratch (free Tx_scratch w)))))
            | Some (Inr (remain_data_len, w)) \<Rightarrow>
                let w = snd (hs_spi_cs_control Hs_spi False w) in
                if remain_data_len \<noteq> 0
                then Some (-11, pthread_mutex_unlock (free Rx_scratch (free Tx_scratch w)))
                else Some (0, pthread_mutex_unlock
                                (free Rx_scratch
                                   (free Tx_scratch (memcpy (Caller rd) Rx_scratch rl w))))))
       = Some (r, w')"
    using run
    by (cases "fd (hs w) < 0"; cases ok1; cases ok2; cases "rc < 0";
        simp add: duplex_body_def Let_def L w1_def [symmetric] hw1 m1 w3_def [symmetric] m2
          w5_def [symmetric] cs)
  have w2: "hs w2 = hs w" "trace w2 = trace w @ [Mutex_lock, Malloc Tx_scratch L]"
    using malloc_world [of env Tx_scratch L w1, unfolded m1] by (simp_all add: w1_def)
  have w4: "hs w4 = hs w"
    "trace w4 = trace w @ [Mutex_lock, Malloc Tx_scratch L, Malloc Rx_scratch L]"
    using malloc_world [of env Rx_scratch L w3, unfolded m2] by (simp_all add: w3_def w2)
  have w6: "hs w6 = hs w"
    "trace w6 = trace w @ [Mutex_lock, Malloc Tx_scratch L, Malloc Rx_scratch L]
                  @ cs_events (hs w) True"
    using hs_spi_cs_control_world [of True w5, unfolded cs] by (simp_all add: w5_def w4)
  have neg: "\<exists>cb tr. cs_control_cb (hs w) = Some cb \<and> cb tr True < 0" if "rc < 0"
    using hs_spi_cs_control_neg [of True w5, unfolded cs] that by (auto simp: w5_def w4)
  have cb: "cs_events (hs w) True = [Cs_control_cb True]" if "rc < 0"
    using neg [OF that] by (auto simp: cs_events_def)
  consider (nofd) "fd (hs w) < 0" | (notx) "0 \<le> fd (hs w)" "\<not> ok1"
    | (norx) "0 \<le> fd (hs w)" "ok1" "\<not> ok2"
    | (nocs) "0 \<le> fd (hs w)" "ok1" "ok2" "rc < 0"
    | (loop) "0 \<le> fd (hs w)" "ok1" "ok2" "0 \<le> rc"
    by fastforce
  then show ?thesis
  proof cases
    case nofd
    with run' show ?thesis
      by (auto simp: new_events_app w1_def run_shape_def)
  next
    case notx
    with run' have "r = -7" "w' = pthread_mutex_unlock w2" by auto
    moreover have "\<exists>tr. \<not> malloc_ok env tr"
      using malloc_fail [of env Tx_scratch L w1] notx by (simp add: m1)
    ultimately show ?thesis using notx
      by (simp add: new_events_app w2 run_shape_def)
  next
    case norx
    with run' have "r = -8" "w' = pthread_mutex_unlock (free Tx_scratch w4)" by auto
    moreover have "\<exists>tr. \<not> malloc_ok env tr"
      using malloc_fail [of env Rx_scratch L w3] norx by (simp add: m2)
    ultimately show ?thesis using norx
      by (simp add: new_events_app w4 run_shape_def)
  next
    case nocs
    with run' have "r = -9"
      "w' = pthread_mutex_unlock (free Rx_scratch (free Tx_scratch w6))" by auto
    with nocs neg cb show ?thesis
      by (simp add: new_events_app w6 run_shape_def)
  next
    case loop
    with run' obtain res where
      loop': "transfer_loop env (msg L) L L (pre w6) = Some res"
      by (auto split: option.splits)
    have hpre: "hs (pre w6) = hs w" by (simp add: pre w6)
    have tpre: "trace (pre w6) = trace w @ [Mutex_lock, Malloc Tx_scratch L, Malloc Rx_scratch L]
                  @ cs_events (hs w) True"
      by (simp add: pre w6)
    from transfer_loop_frame [OF loop'] obtain ms0 where
      h: "hs (loop_world res) = hs w"
      and t0: "trace (loop_world res) = trace (pre w6) @ map (Ioctl_message (fd (hs w))) ms0"
      by (auto simp: hpre)
    have msg: "\<exists>k \<le> length (iterations (max_transfer_len (hs w)) L L).
            ms0 = map (step_msg (msg L)) (take k (iterations (max_transfer_len (hs w)) L L)) \<and>
            (case res of Inl w' \<Rightarrow> 0 < k | Inr x \<Rightarrow> k = length (iterations (max_transfer_len (hs w)) L L))"
      if C: "0 < max_transfer_len (hs w)"
    proof -
      from transfer_loop_messages [OF loop', unfolded hpre] C
      obtain k where k: "k \<le> length (iterations (max_transfer_len (hs w)) L L)"
        and t: "trace (loop_world res) = trace (pre w6)
                  @ map (Ioctl_message (fd (hs w)) \<circ> step_msg (msg L))
                      (take k (iterations (max_transfer_len (hs w)) L L))"
        and c: "(case res of Inl w' \<Rightarrow> 0 < k \<and> sys_ret env (trace w') < 0
                 | Inr x \<Rightarrow> k = length (iterations (max_transfer_len (hs w)) L L))"
        by blast
      have "map (Ioctl_message (fd (hs w))) ms0
              = map (Ioctl_message (fd (hs w)))
                  (map (step_msg (msg L)) (take k (iterations (max_transfer_len (hs w)) L L)))"
        using t t0 by simp
      then have "ms0 = map (step_msg (msg L)) (take k (iterations (max_transfer_len (hs w)) L L))"
        by (rule map_injective) (simp add: inj_def)
      with k c show ?thesis by (auto split: sum.splits)
    qed
    show ?thesis
    proof (cases res)
      case (Inl wl)
      with run' loop loop' have r: "r = -10"
        and w': "w' = pthread_mutex_unlock (snd (hs_spi_cs_control Hs_spi False
                         (free Rx_scratch (free Tx_scratch wl))))"
        by auto
      have "\<exists>tr. sys_ret env tr < 0"
        using transfer_loop_fail [OF loop' [unfolded Inl]] by blast
      moreover have tr': "trace w' = trace w @ [Mutex_lock, Malloc Tx_scratch L, Malloc Rx_scratch L]
             @ cs_events (hs w) True @ map (Ioctl_message (fd (hs w))) ms0
             @ [Free Tx_scratch, Free Rx_scratch] @ cs_events (hs w) False @ [Mutex_unlock]"
        using t0 h by (simp add: w' Inl tpre)
      moreover have "hs w' = hs w" using h by (simp add: w' Inl)
      moreover have "\<exists>ms. new_events w w' = [Mutex_lock, Malloc Tx_scratch L, Malloc Rx_scratch L]
             @ cs_events (hs w) True @ map (Ioctl_message (fd (hs w))) ms
             @ [Free Tx_scratch, Free Rx_scratch] @ cs_events (hs w) False @ [Mutex_unlock] \<and>
             (0 < max_transfer_len (hs w) \<longrightarrow>
                (\<exists>k \<le> length (iterations (max_transfer_len (hs w)) L L).
                   0 < k \<and> ms = map (step_msg (msg L)) (take k (iterations (max_transfer_len (hs w)) L L))))"
        using msg by (intro exI [of _ ms0]) (auto simp: new_events_app [OF tr'] Inl)
      ultimately show ?thesis
        using r loop by (simp add: run_shape_def)
    next
      case (Inr x)
      obtain r0 wr where x: "x = (r0, wr)" by (cases x)
      have r0: "r0 = 0" using transfer_loop_remain [OF loop' [unfolded Inr x]] .
      with run' loop loop' have r: "r = 0"
        and w': "w' = pthread_mutex_unlock (free Rx_scratch (free Tx_scratch
                        (memcpy (Caller rd) Rx_scratch rl
                           (snd (hs_spi_cs_control Hs_spi False wr)))))"
        by (auto simp: Inr x)
      have tr': "trace w' = trace w @ [Mutex_lock, Malloc Tx_scratch L, Malloc Rx_scratch L]
             @ cs_events (hs w) True @ map (Ioctl_message (fd (hs w))) ms0
             @ cs_events (hs w) False @ [Free Tx_scratch, Free Rx_scratch] @ [Mutex_unlock]"
        using t0 h by (simp add: w' Inr x tpre)
      moreover have "hs w' = hs w" using h by (simp add: w' Inr x)
      moreover have "\<exists>ms. new_events w w' = [Mutex_lock, Malloc Tx_scratch L, Malloc Rx_scratch L]
             @ cs_events (hs w) True @ map (Ioctl_message (fd (hs w))) ms
             @ cs_events (hs w) False @ [Free Tx_scratch, Free Rx_scratch] @ [Mutex_unlock] \<and>
             (0 < max_transfer_len (hs w) \<longrightarrow>
                ms = map (step_msg (msg L)) (iterations (max_transfer_len (hs w)) L L))"
        using msg by (intro exI [of _ ms0]) (auto simp: new_events_app [OF tr'] Inr x)
      ultimately show ?thesis
        using r loop by (simp add: run_shape_def)
    qed
  qed
qed

lemma bind_reg_addr_world [simp]:
  "hs (bind_reg_addr a w) = hs w" "trace (bind_reg_addr a w) = trace w"
  by (simp_all add: bind_reg_addr_def)

lemma preconditions_ok:
  "list_all id (preconditions p c) \<longleftrightarrow>
     p = Hs_spi \<and> (\<forall>(b, n) \<in> set (data_args c). b \<noteq> None \<and> 0 < n)"
  by (cases p; cases c) (auto simp: preconditions_def)

lemma transfer_run:
  assumes run: "hs_spi_transfer env p c w = Some (r, w')"
    and ok: "list_all id (preconditions p c)"
  shows "hs w' = hs w \<and>
    run_shape env (hs w) (is_duplex c) (payload_len c) (call_msg c) r (new_events w w')"
proof (cases c)
  case (Write_data wd wl)
  with ok obtain b where p: "p = Hs_spi" "wd = Some b" "wl \<noteq> 0"
    by (auto simp: preconditions_ok)
  have m: "call_msg c = (\<lambda>r off cur. [transfer (Some (Caller b, off)) None cur])"
    by (simp add: call_msg_def data_transfer_def Write_data p fun_eq_iff)
  from run have "simple_body env Hs_spi (\<lambda>v. v) (call_msg c) wl w = Some (r, w')"
    unfolding m by (simp add: Write_data p hs_spi_write_data_body)
  from simple_body_run [OF this] show ?thesis
    by (simp add: Write_data)
next
  case (Read_data rd rl)
  with ok obtain b where p: "p = Hs_spi" "rd = Some b" "rl \<noteq> 0"
    by (auto simp: preconditions_ok)
  have m: "call_msg c = (\<lambda>r off cur. [transfer None (Some (Caller b, off)) cur])"
    by (simp add: call_msg_def data_transfer_def Read_data p fun_eq_iff)
  from run have "simple_body env Hs_spi (\<lambda>v. v) (call_msg c) rl w = Some (r, w')"
    unfolding m by (simp add: Read_data p hs_spi_read_data_body)
  from simple_body_run [OF this] show ?thesis
    by (simp add: Read_data)
next
  case (Write_read_data wd wl rd rl)
  with ok obtain b b' where p: "p = Hs_spi" "wd = Some b" "rd = Some b'" "wl \<noteq> 0" "rl \<noteq> 0"
    by (auto simp: preconditions_ok)
  have m: "call_msg c = (\<lambda>r off cur. [transfer (Some (Tx_scratch, off)) (Some (Rx_scratch, off)) cur])"
    by (simp add: call_msg_def data_transfer_def Write_read_data p fun_eq_iff)
  from run have "duplex_body env Hs_spi (\<lambda>v. v)
       (\<lambda>dl r off cur. [transfer (Some (Tx_scratch, off)) (Some (Rx_scratch, off)) cur])
       b wl b' rl w = Some (r, w')"
    by (simp add: Write_read_data p hs_spi_write_read_data_body)
  from duplex_body_run [OF this] show ?thesis
    unfolding m by (simp add: Write_read_data)
next
  case (Write_data_sub a wd wl)
  with ok obtain b where p: "p = Hs_spi" "wd = Some b" "wl \<noteq> 0"
    by (auto simp: preconditions_ok)
  have m: "call_msg c = (\<lambda>r off cur. if r = wl
                then [reg_addr_transfer, transfer (Some (Caller b, off)) None cur]
                else [transfer (Some (Caller b, off)) None cur])"
    by (simp add: call_msg_def data_transfer_def Write_data_sub p fun_eq_iff)
  from run have "simple_body env Hs_spi (bind_reg_addr a) (call_msg c) wl w = Some (r, w')"
    unfolding m by (simp add: Write_data_sub p hs_spi_write_data_sub_body)
  from simple_body_run [OF this] show ?thesis
    by (simp add: Write_data_sub)
next
  case (Read_data_sub a rd rl)
  with ok obtain b where p: "p = Hs_spi" "rd = Some b" "rl \<noteq> 0"
    by (auto simp: preconditions_ok)
  have m: "call_msg c = (\<lambda>r off cur. if r = rl
                then [reg_addr_transfer, transfer None (Some (Caller b, off)) cur]
                else [transfer None (Some (Caller b, off)) cur])"
    by (simp add: call_msg_def data_transfer_def Read_data_sub p fun_eq_iff)
  from run have "simple_body env Hs_spi (bind_reg_addr a) (call_msg c) rl w = Some (r, w')"
    unfolding m by (simp add: Read_data_sub p hs_spi_read_data_sub_body)
  from simple_body_run [OF this] show ?thesis
    by (simp add: Read_data_sub)
next
  case (Write_read_data_sub a wd wl rd rl)
  with ok obtain b b' where p: "p = Hs_spi" "wd = Some b" "rd = Some b'" "wl \<noteq> 0" "rl \<noteq> 0"
    by (auto simp: preconditions_ok)
  have m: "call_msg c = (\<lambda>r off cur. if r = max wl rl
                then [reg_addr_transfer,
                      transfer (Some (Tx_scratch, off)) (Some (Rx_scratch, off)) cur]
                else [transfer (Some (Tx_scratch, off)) (Some (Rx_scratch, off)) cur])"
    by (simp add: call_msg_def data_transfer_def Write_read_data_sub p fun_eq_iff)
  from run have "duplex_body env Hs_spi (bind_reg_addr a)
       (\<lambda>dl r off cur. if r = dl
                then [reg_addr_transfer,
                      transfer (Some (Tx_scratch, off)) (Some (Rx_scratch, off)) cur]
                else [transfer (Some (Tx_scratch, off)) (Some (Rx_scratch, off)) cur])
       b wl b' rl w = Some (r, w')"
    by (simp add: Write_read_data_sub p hs_spi_write_read_data_sub_body)
  from duplex_body_run [OF this] show ?thesis
    unfolding m by (simp add: Write_read_data_sub)
qed






lemma simple_body_fd:
  "fd (hs w) < 0 \<Longrightarrow>
   simple_body env p pre msg dl w = Some (-4, pthread_mutex_unlock (pthread_mutex_lock w))"
  by (simp add: simple_body_def Let_def)

lemma duplex_body_fd:
  "fd (hs w) < 0 \<Longrightarrow>
   duplex_body env p pre msg wd wl rd rl w = Some (-6, pthread_mutex_unlock (pthread_mutex_lock w))"
  by (simp add: duplex_body_def Let_def)

lemma simple_body_terminates:
  assumes C: "0 \<le> fd (hs w) \<longrightarrow> 0 < max_transfer_len (hs w)"
    and pre: "\<And>v. hs (pre v) = hs v"
  shows "\<exists>r w'. simple_body env Hs_spi pre msg dl w = Some (r, w')"
proof (cases "fd (hs w) < 0")
  case True
  then show ?thesis by (simp add: simple_body_fd)
next
  case False
  obtain rc w1 where cs: "hs_spi_cs_control Hs_spi True (pthread_mutex_lock w) = (rc, w1)"
    by fastforce
  have h1: "hs w1 = hs w"
    using hs_spi_cs_control_world(1) [of True "pthread_mutex_lock w", unfolded cs] by simp
  have "0 < max_transfer_len (hs (pre w1))" using C False by (simp add: pre h1)
  from transfer_loop_terminates [OF this] obtain res where
    "transfer_loop env msg dl dl (pre w1) = Some res" by blast
  then show ?thesis
    using False
    by (cases "rc < 0"; cases res)
       (auto simp: simple_body_def Let_def cs)
qed

lemma duplex_body_terminates:
  assumes C: "0 \<le> fd (hs w) \<longrightarrow> 0 < max_transfer_len (hs w)"
    and pre: "\<And>v. hs (pre v) = hs v"
  shows "\<exists>r w'. duplex_body env Hs_spi pre msg wd wl rd rl w = Some (r, w')"
proof (cases "fd (hs w) < 0")
  case True
  then show ?thesis by (simp add: duplex_body_fd)
next
  case False
  define L where "L = (if wl > rl then wl else rl)"
  define w1 where "w1 = pthread_mutex_lock w"
  have hw1: "hs w1 = hs w" by (simp add: w1_def)
  obtain ok1 w2 where m1: "malloc env Tx_scratch L w1 = (ok1, w2)" by fastforce
  define w3 where "w3 = memcpy Tx_scratch (Caller wd) wl (memset Tx_scratch 0 L w2)"
  obtain ok2 w4 where m2: "malloc env Rx_scratch L w3 = (ok2, w4)" by fastforce
  define w5 where "w5 = memset Rx_scratch 0 L w4"
  obtain rc w6 where cs: "hs_spi_cs_control Hs_spi True w5 = (rc, w6)" by fastforce
  have "hs w2 = hs w"
    using malloc_world(1) [of env Tx_scratch L w1, unfolded m1] by (simp add: w1_def)
  then have "hs w4 = hs w"
    using malloc_world(1) [of env Rx_scratch L w3, unfolded m2] by (simp add: w3_def)
  then have "hs w6 = hs w"
    using hs_spi_cs_control_world(1) [of True w5, unfolded cs] by (simp add: w5_def)
  then have "0 < max_transfer_len (hs (pre w6))" using C False by (simp add: pre)
  from transfer_loop_terminates [OF this] obtain res where
    "transfer_loop env (msg L) L L (pre w6) = Some res" by blast
  then show ?thesis
    using False
    by (cases ok1; cases ok2; cases "rc < 0"; cases res)
       (auto simp: duplex_body_def Let_def L_def [symmetric] w1_def [symmetric] hw1 m1
          w3_def [symmetric] m2 w5_def [symmetric] cs)
qed

lemma transfer_fd:
  assumes ok: "list_all id (preconditions p c)" and fd: "fd (hs w) < 0"
  shows "hs_spi_transfer env p c w
           = Some (fd_code c, pthread_mutex_unlock (pthread_mutex_lock w))"
  using ok fd
  by (cases c)
     (auto simp: preconditions_ok fd_code_def hs_spi_write_data_body hs_spi_read_data_body
        hs_spi_write_read_data_body hs_spi_write_data_sub_body hs_spi_read_data_sub_body
        hs_spi_write_read_data_sub_body simple_body_fd duplex_body_fd)

lemma transfer_terminates_ok:
  assumes ok: "list_all id (preconditions p c)"
    and C: "0 \<le> fd (hs w) \<longrightarrow> 0 < max_transfer_len (hs w)"
  shows "\<exists>r w'. hs_spi_transfer env p c w = Some (r, w')"
  using ok simple_body_terminates [OF C] duplex_body_terminates [OF C]
  by (cases c)
     (auto simp: preconditions_ok hs_spi_write_data_body hs_spi_read_data_body
        hs_spi_write_read_data_body hs_spi_write_data_sub_body hs_spi_read_data_sub_body
        hs_spi_write_read_data_sub_body)

lemma transfer_precondition:
  assumes "i < length (preconditions p c)" "\<not> preconditions p c ! i"
    "\<forall>j < i. preconditions p c ! j"
  shows "hs_spi_transfer env p c w = Some (- int i - 1, w)"
proof -
  have three: "i = 0 \<or> i = Suc 0 \<or> i = Suc (Suc 0)" if "length (preconditions p c) = 3"
    using assms(1) that by auto
  have five: "i = 0 \<or> i = Suc 0 \<or> i = Suc (Suc 0) \<or> i = Suc (Suc (Suc 0))
      \<or> i = Suc (Suc (Suc (Suc 0)))" if "length (preconditions p c) = 5"
    using assms(1) that by auto
  show ?thesis
  proof (cases c)
    case (Write_data wd wl)
    with three have "i = 0 \<or> i = Suc 0 \<or> i = Suc (Suc 0)" by (simp add: preconditions_def)
    with assms(2,3) show ?thesis
      by (auto simp: preconditions_def Write_data hs_spi_write_data_def All_less_Suc)
  next
    case (Read_data rd rl)
    with three have "i = 0 \<or> i = Suc 0 \<or> i = Suc (Suc 0)" by (simp add: preconditions_def)
    with assms(2,3) show ?thesis
      by (auto simp: preconditions_def Read_data hs_spi_read_data_def All_less_Suc)
  next
    case (Write_read_data wd wl rd rl)
    with five have "i = 0 \<or> i = Suc 0 \<or> i = Suc (Suc 0) \<or> i = Suc (Suc (Suc 0))
      \<or> i = Suc (Suc (Suc (Suc 0)))" by (simp add: preconditions_def)
    with assms(2,3) show ?thesis
      by (auto simp: preconditions_def Write_read_data hs_spi_write_read_data_def All_less_Suc)
  next
    case (Write_data_sub a wd wl)
    with three have "i = 0 \<or> i = Suc 0 \<or> i = Suc (Suc 0)" by (simp add: preconditions_def)
    with assms(2,3) show ?thesis
      by (auto simp: preconditions_def Write_data_sub hs_spi_write_data_sub_def All_less_Suc)
  next
    case (Read_data_sub a rd rl)
    with three have "i = 0 \<or> i = Suc 0 \<or> i = Suc (Suc 0)" by (simp add: preconditions_def)
    with assms(2,3) show ?thesis
      by (auto simp: preconditions_def Read_data_sub hs_spi_read_data_sub_def All_less_Suc)
  next
    case (Write_read_data_sub a wd wl rd rl)
    with five have "i = 0 \<or> i = Suc 0 \<or> i = Suc (Suc 0) \<or> i = Suc (Suc (Suc 0))
      \<or> i = Suc (Suc (Suc (Suc 0)))" by (simp add: preconditions_def)
    with assms(2,3) show ?thesis
      by (auto simp: preconditions_def Write_read_data_sub hs_spi_write_read_data_sub_def
            All_less_Suc)
  qed
qed

lemma ioctl_messages_append [simp]:
  "ioctl_messages (a @ b) = ioctl_messages a @ ioctl_messages b"
  by (induction a rule: ioctl_messages.induct) simp_all

lemma ioctl_messages_map [simp]: "ioctl_messages (map (Ioctl_message fdv) ms) = ms"
  by (induction ms) simp_all

lemma ioctl_messages_map_comp [simp]:
  "ioctl_messages (map (Ioctl_message fdv \<circ> f) xs) = map f xs"
  by (induction xs) simp_all

lemma cs_calls_map_comp [simp]: "cs_calls (map (Ioctl_message fdv \<circ> f) xs) = []"
  by (induction xs) simp_all

lemma ioctl_messages_cs_events [simp]: "ioctl_messages (cs_events h b) = []"
  by (simp add: cs_events_def split: option.splits)

lemma cs_calls_append [simp]: "cs_calls (a @ b) = cs_calls a @ cs_calls b"
  by (induction a rule: cs_calls.induct) simp_all

lemma cs_calls_map [simp]: "cs_calls (map (Ioctl_message fdv) ms) = []"
  by (induction ms) simp_all

lemma cs_calls_cs_events [simp]:
  "cs_calls (cs_events h b) = (if cs_control_cb h = None then [] else [b])"
  by (simp add: cs_events_def split: option.splits)


lemma run_shape_prefix:
  assumes "run_shape env h dup L msg r new" "0 < max_transfer_len h"
  shows "\<exists>k \<le> length (iterations (max_transfer_len h) L L).
           ioctl_messages new = map (step_msg msg) (take k (iterations (max_transfer_len h) L L))"
proof -
  let ?its = "iterations (max_transfer_len h) L L"
  from assms consider (none) "ioctl_messages new = []"
    | (some) k where "k \<le> length ?its" "ioctl_messages new = map (step_msg msg) (take k ?its)"
    | (all) "ioctl_messages new = map (step_msg msg) ?its"
    unfolding run_shape_def by (elim disjE conjE exE) (auto split: if_splits)
  then show ?thesis
  proof cases
    case none
    then show ?thesis by (intro exI [of _ 0]) simp
  next
    case some
    then show ?thesis by blast
  next
    case all
    then show ?thesis by (intro exI [of _ "length ?its"]) simp
  qed
qed



lemma is_reg_addr_simps [simp]:
  "is_reg_addr reg_addr_transfer" "\<not> is_reg_addr (data_transfer c off cur)"
  by (cases c; simp add: is_reg_addr_def reg_addr_transfer_def data_transfer_def transfer_def
        split: option.splits)+

lemma len_data_transfer [simp]: "len (data_transfer c off cur) = cur"
  by (cases c) (simp_all add: data_transfer_def transfer_def)


lemma filter_call_msg [simp]:
  "filter (\<lambda>d. \<not> is_reg_addr d) (call_msg c r off cur) = [data_transfer c off cur]"
  by (simp add: call_msg_def)






lemma first_false:
  "\<not> list_all id xs \<Longrightarrow> \<exists>i < length xs. \<not> xs ! i \<and> (\<forall>j < i. xs ! j)"
proof (induction xs)
  case Nil
  then show ?case by simp
next
  case (Cons x xs)
  show ?case
  proof (cases x)
    case False
    then show ?thesis by (intro exI [of _ 0]) simp
  next
    case True
    with Cons obtain i where "i < length xs" "\<not> xs ! i" "\<forall>j < i. xs ! j" by auto
    with True show ?thesis
      by (intro exI [of _ "Suc i"]) (auto simp: nth_Cons split: nat.splits)
  qed
qed

lemma length_preconditions: "length (preconditions p c) = (if is_duplex c then 5 else 3)"
  by (cases c) (simp_all add: preconditions_def)

lemma transfer_not_ok:
  assumes "\<not> list_all id (preconditions p c)"
  shows "\<exists>i < (if is_duplex c then 5 else 3). hs_spi_transfer env p c w = Some (- int i - 1, w)"
proof -
  from first_false [OF assms] obtain i where
    "i < length (preconditions p c)" "\<not> preconditions p c ! i" "\<forall>j < i. preconditions p c ! j"
    by blast
  with transfer_precondition [OF this] show ?thesis
    by (auto simp: length_preconditions)
qed



lemma run_shape_duplex_order:
  assumes "run_shape env h True L msg r new"
  shows "(cs_calls new \<noteq> [] \<longrightarrow>
           (\<exists>rest. new = [Mutex_lock, Malloc Tx_scratch L, Malloc Rx_scratch L,
                           Cs_control_cb True] @ rest)) \<and>
         (r = -7 \<or> r = -8 \<longrightarrow> cs_calls new = [] \<and> (\<exists>tr. \<not> malloc_ok env tr))"
  using assms unfolding run_shape_def
  by (elim disjE conjE exE) (auto simp: cs_events_def split: if_splits option.splits)

lemma run_shape_lock_first:
  "run_shape env h dup L msg r new \<Longrightarrow> take 1 new = [Mutex_lock]"
  unfolding run_shape_def by (elim disjE conjE exE) auto

lemma transfer_hs:
  assumes run: "hs_spi_transfer env p c w = Some (r, w')"
  shows "hs w' = hs w"
proof (cases "list_all id (preconditions p c)")
  case True
  from transfer_run [OF run True] show ?thesis by simp
next
  case False
  from transfer_not_ok [OF False, of env w] run show ?thesis by auto
qed

lemma close_if_open_world:
  "trace (close_if_open w) = trace w @ (if fd (hs w) \<noteq> -1 then [Close (fd (hs w))] else [])"
  "fd (hs (close_if_open w)) = -1"
  "cs_control_cb (hs (close_if_open w)) = cs_control_cb (hs w)"
  "max_transfer_len (hs (close_if_open w)) = max_transfer_len (hs w)"
  "mem (close_if_open w) = mem w"
  by (simp_all add: close_if_open_def set_fd_def sys_close_def)

lemma hs_spi_init_cases:
  assumes init: "hs_spi_init env Hs_spi (Some name) mode speed bits w = (r, w')"
  defines "pre \<equiv> init_prefix (hs w) name"
  defines "fdv \<equiv> sys_ret env (trace w @ init_prefix (hs w) name)"
  defines "cfg \<equiv> (\<lambda>k. map (Ioctl_config (sys_ret env (trace w @ init_prefix (hs w) name)))
                        (take k (init_requests mode speed bits)))"
  shows "cs_control_cb (hs w') = cs_control_cb (hs w) \<and> mem w' = mem w \<and>
    ((fdv < 0 \<and> r = -3 \<and> trace w' = trace w @ pre @ [Mutex_unlock] \<and> fd (hs w') = -1 \<and>
        max_transfer_len (hs w') = max_transfer_len (hs w)) \<or>
     (0 \<le> fdv \<and>
       (\<exists>k < 6. r = - 4 - int k \<and> sys_ret env (trace w @ pre @ cfg (Suc k)) < 0 \<and>
           trace w' = (trace w @ pre @ cfg (Suc k)) @ [Close fdv, Mutex_unlock] \<and>
           fd (hs w') = -1 \<and> max_transfer_len (hs w') = max_transfer_len (hs w))) \<or>
     (0 \<le> fdv \<and> r = 0 \<and> trace w' = trace w @ pre @ cfg 6 @ [Mutex_unlock] \<and>
        fd (hs w') = fdv \<and>
        max_transfer_len (hs w') =
          (if max_transfer_len (hs w) = 0 then 4096 else max_transfer_len (hs w))))"
proof -
  define w1 where "w1 = close_if_open (pthread_mutex_lock w)"
  have t1: "trace w1 @ [Open name] = trace w @ pre"
    by (simp add: w1_def close_if_open_world pre_def init_prefix_def)
  define w2 where "w2 = emit (Open name) w1"
  have w2: "trace w2 = trace w @ pre" "fd (hs w2) = -1"
    "cs_control_cb (hs w2) = cs_control_cb (hs w)"
    "max_transfer_len (hs w2) = max_transfer_len (hs w)" "mem w2 = mem w"
    using t1 by (simp_all add: w2_def w1_def close_if_open_world)
  have op: "sys_open env name w1 = (fdv, w2)"
    using t1 by (simp add: sys_open_def Let_def w2_def fdv_def pre_def)
  define v1 where "v1 = emit (Ioctl_config fdv (SPI_IOC_WR_MODE mode)) w2"
  have c1: "ioctl_config env fdv (SPI_IOC_WR_MODE mode) w2 = (sys_ret env (trace v1), v1)"
    by (simp add: ioctl_config_def Let_def v1_def)
  have t1: "trace v1 = trace w @ pre @ cfg (Suc 0)"
    by (simp add: v1_def w2 cfg_def init_requests_def fdv_def)
  have h1: "hs v1 = hs w2" "mem v1 = mem w2"
    by (simp_all add: v1_def )
  define v2 where "v2 = emit (Ioctl_config fdv (SPI_IOC_RD_MODE mode)) v1"
  have c2: "ioctl_config env fdv (SPI_IOC_RD_MODE mode) v1 = (sys_ret env (trace v2), v2)"
    by (simp add: ioctl_config_def Let_def v2_def)
  have t2: "trace v2 = trace w @ pre @ cfg (Suc 1)"
    by (simp add: v2_def t1 cfg_def init_requests_def fdv_def)
  have h2: "hs v2 = hs w2" "mem v2 = mem w2"
    by (simp_all add: v2_def h1)
  define v3 where "v3 = emit (Ioctl_config fdv (SPI_IOC_WR_MAX_SPEED_HZ speed)) v2"
  have c3: "ioctl_config env fdv (SPI_IOC_WR_MAX_SPEED_HZ speed) v2 = (sys_ret env (trace v3), v3)"
    by (simp add: ioctl_config_def Let_def v3_def)
  have t3: "trace v3 = trace w @ pre @ cfg (Suc 2)"
    by (simp add: v3_def t2 cfg_def init_requests_def fdv_def)
  have h3: "hs v3 = hs w2" "mem v3 = mem w2"
    by (simp_all add: v3_def h2)
  define v4 where "v4 = emit (Ioctl_config fdv (SPI_IOC_RD_MAX_SPEED_HZ speed)) v3"
  have c4: "ioctl_config env fdv (SPI_IOC_RD_MAX_SPEED_HZ speed) v3 = (sys_ret env (trace v4), v4)"
    by (simp add: ioctl_config_def Let_def v4_def)
  have t4: "trace v4 = trace w @ pre @ cfg (Suc 3)"
    by (simp add: v4_def t3 cfg_def init_requests_def fdv_def)
  have h4: "hs v4 = hs w2" "mem v4 = mem w2"
    by (simp_all add: v4_def h3)
  define v5 where "v5 = emit (Ioctl_config fdv (SPI_IOC_WR_BITS_PER_WORD bits)) v4"
  have c5: "ioctl_config env fdv (SPI_IOC_WR_BITS_PER_WORD bits) v4 = (sys_ret env (trace v5), v5)"
    by (simp add: ioctl_config_def Let_def v5_def)
  have t5: "trace v5 = trace w @ pre @ cfg (Suc 4)"
    by (simp add: v5_def t4 cfg_def init_requests_def fdv_def)
  have h5: "hs v5 = hs w2" "mem v5 = mem w2"
    by (simp_all add: v5_def h4)
  define v6 where "v6 = emit (Ioctl_config fdv (SPI_IOC_RD_BITS_PER_WORD bits)) v5"
  have c6: "ioctl_config env fdv (SPI_IOC_RD_BITS_PER_WORD bits) v5 = (sys_ret env (trace v6), v6)"
    by (simp add: ioctl_config_def Let_def v6_def)
  have t6: "trace v6 = trace w @ pre @ cfg (Suc 5)"
    by (simp add: v6_def t5 cfg_def init_requests_def fdv_def)
  have h6: "hs v6 = hs w2" "mem v6 = mem w2"
    by (simp_all add: v6_def h5)
  note fc = fail_close_def sys_close_def set_fd_def set_max_len_def
  note cs = c1 c2 c3 c4 c5 c6
  consider (o) "fdv < 0"
    | (f1) "\<not> fdv < 0" "sys_ret env (trace v1) < 0"
    | (f2) "\<not> fdv < 0" "\<not> sys_ret env (trace v1) < 0" "sys_ret env (trace v2) < 0"
    | (f3) "\<not> fdv < 0" "\<not> sys_ret env (trace v1) < 0" "\<not> sys_ret env (trace v2) < 0" "sys_ret env (trace v3) < 0"
    | (f4) "\<not> fdv < 0" "\<not> sys_ret env (trace v1) < 0" "\<not> sys_ret env (trace v2) < 0" "\<not> sys_ret env (trace v3) < 0" "sys_ret env (trace v4) < 0"
    | (f5) "\<not> fdv < 0" "\<not> sys_ret env (trace v1) < 0" "\<not> sys_ret env (trace v2) < 0" "\<not> sys_ret env (trace v3) < 0" "\<not> sys_ret env (trace v4) < 0" "sys_ret env (trace v5) < 0"
    | (f6) "\<not> fdv < 0" "\<not> sys_ret env (trace v1) < 0" "\<not> sys_ret env (trace v2) < 0" "\<not> sys_ret env (trace v3) < 0" "\<not> sys_ret env (trace v4) < 0" "\<not> sys_ret env (trace v5) < 0" "sys_ret env (trace v6) < 0"
    | (s) "\<not> fdv < 0" "\<not> sys_ret env (trace v1) < 0" "\<not> sys_ret env (trace v2) < 0" "\<not> sys_ret env (trace v3) < 0" "\<not> sys_ret env (trace v4) < 0" "\<not> sys_ret env (trace v5) < 0" "\<not> sys_ret env (trace v6) < 0"
    by blast
  then show ?thesis
  proof cases
    case o
    with init have "r = -3" "w' = pthread_mutex_unlock w2"
      by (simp_all add: hs_spi_init_def w1_def [symmetric] op)
    with o show ?thesis by (simp add: w2)
  next
    case f1
    with init have r: "r = - 4 - int 0" and w': "w' = pthread_mutex_unlock (sys_close fdv v1)"
      by (simp_all add: hs_spi_init_def w1_def [symmetric] op cs fc)
    have "\<exists>k < 6. r = - 4 - int k \<and> sys_ret env (trace w @ pre @ cfg (Suc k)) < 0 \<and>
           trace w' = (trace w @ pre @ cfg (Suc k)) @ [Close fdv, Mutex_unlock] \<and>
           fd (hs w') = -1 \<and> max_transfer_len (hs w') = max_transfer_len (hs w)"
      using f1 by (intro exI [of _ 0]) (unfold t1 [symmetric], simp add: r w' fc h1 w2)
    moreover have "cs_control_cb (hs w') = cs_control_cb (hs w)" "mem w' = mem w"
      by (simp_all add: w' fc h1 w2)
    ultimately show ?thesis using f1(1) by simp
  next
    case f2
    with init have r: "r = - 4 - int 1" and w': "w' = pthread_mutex_unlock (sys_close fdv v2)"
      by (simp_all add: hs_spi_init_def w1_def [symmetric] op cs fc)
    have "\<exists>k < 6. r = - 4 - int k \<and> sys_ret env (trace w @ pre @ cfg (Suc k)) < 0 \<and>
           trace w' = (trace w @ pre @ cfg (Suc k)) @ [Close fdv, Mutex_unlock] \<and>
           fd (hs w') = -1 \<and> max_transfer_len (hs w') = max_transfer_len (hs w)"
      using f2 by (intro exI [of _ 1]) (unfold t2 [symmetric], simp add: r w' fc h2 w2)
    moreover have "cs_control_cb (hs w') = cs_control_cb (hs w)" "mem w' = mem w"
      by (simp_all add: w' fc h2 w2)
    ultimately show ?thesis using f2(1) by simp
  next
    case f3
    with init have r: "r = - 4 - int 2" and w': "w' = pthread_mutex_unlock (sys_close fdv v3)"
      by (simp_all add: hs_spi_init_def w1_def [symmetric] op cs fc)
    have "\<exists>k < 6. r = - 4 - int k \<and> sys_ret env (trace w @ pre @ cfg (Suc k)) < 0 \<and>
           trace w' = (trace w @ pre @ cfg (Suc k)) @ [Close fdv, Mutex_unlock] \<and>
           fd (hs w') = -1 \<and> max_transfer_len (hs w') = max_transfer_len (hs w)"
      using f3 by (intro exI [of _ 2]) (unfold t3 [symmetric], simp add: r w' fc h3 w2)
    moreover have "cs_control_cb (hs w') = cs_control_cb (hs w)" "mem w' = mem w"
      by (simp_all add: w' fc h3 w2)
    ultimately show ?thesis using f3(1) by simp
  next
    case f4
    with init have r: "r = - 4 - int 3" and w': "w' = pthread_mutex_unlock (sys_close fdv v4)"
      by (simp_all add: hs_spi_init_def w1_def [symmetric] op cs fc)
    have "\<exists>k < 6. r = - 4 - int k \<and> sys_ret env (trace w @ pre @ cfg (Suc k)) < 0 \<and>
           trace w' = (trace w @ pre @ cfg (Suc k)) @ [Close fdv, Mutex_unlock] \<and>
           fd (hs w') = -1 \<and> max_transfer_len (hs w') = max_transfer_len (hs w)"
      using f4 by (intro exI [of _ 3]) (unfold t4 [symmetric], simp add: r w' fc h4 w2)
    moreover have "cs_control_cb (hs w') = cs_control_cb (hs w)" "mem w' = mem w"
      by (simp_all add: w' fc h4 w2)
    ultimately show ?thesis using f4(1) by simp
  next
    case f5
    with init have r: "r = - 4 - int 4" and w': "w' = pthread_mutex_unlock (sys_close fdv v5)"
      by (simp_all add: hs_spi_init_def w1_def [symmetric] op cs fc)
    have "\<exists>k < 6. r = - 4 - int k \<and> sys_ret env (trace w @ pre @ cfg (Suc k)) < 0 \<and>
           trace w' = (trace w @ pre @ cfg (Suc k)) @ [Close fdv, Mutex_unlock] \<and>
           fd (hs w') = -1 \<and> max_transfer_len (hs w') = max_transfer_len (hs w)"
      using f5 by (intro exI [of _ 4]) (unfold t5 [symmetric], simp add: r w' fc h5 w2)
    moreover have "cs_control_cb (hs w') = cs_control_cb (hs w)" "mem w' = mem w"
      by (simp_all add: w' fc h5 w2)
    ultimately show ?thesis using f5(1) by simp
  next
    case f6
    with init have r: "r = - 4 - int 5" and w': "w' = pthread_mutex_unlock (sys_close fdv v6)"
      by (simp_all add: hs_spi_init_def w1_def [symmetric] op cs fc)
    have "\<exists>k < 6. r = - 4 - int k \<and> sys_ret env (trace w @ pre @ cfg (Suc k)) < 0 \<and>
           trace w' = (trace w @ pre @ cfg (Suc k)) @ [Close fdv, Mutex_unlock] \<and>
           fd (hs w') = -1 \<and> max_transfer_len (hs w') = max_transfer_len (hs w)"
      using f6 by (intro exI [of _ 5]) (unfold t6 [symmetric], simp add: r w' fc h6 w2)
    moreover have "cs_control_cb (hs w') = cs_control_cb (hs w)" "mem w' = mem w"
      by (simp_all add: w' fc h6 w2)
    ultimately show ?thesis using f6(1) by simp
  next
    case s
    with init have "r = 0" "w' = pthread_mutex_unlock
                      (set_max_len (if max_transfer_len (hs v6) = 0 then 4096
                                    else max_transfer_len (hs v6))
                         (set_fd fdv v6))"
      by (simp_all add: hs_spi_init_def w1_def [symmetric] op cs)
    with s show ?thesis
      using t6 by (simp add: fc h6 w2)
  qed
qed






text \<open>The definitions that evaluate a call on a concrete world.\<close>

lemmas eval_defs =
  hs_spi_write_data_def hs_spi_read_data_def hs_spi_write_read_data_def
  hs_spi_write_data_sub_def hs_spi_read_data_sub_def hs_spi_write_read_data_sub_def
  world_open_def env_ok_def transfer_loop.simps ioctl_message_def emit_def
  pthread_mutex_lock_def pthread_mutex_unlock_def hs_spi_cs_control_def Let_def
  bind_reg_addr_def malloc_def free_def memset_def memcpy_def store_bytes_def
  new_events_def preconditions_def

section \<open>Segmentation\<close>



section \<open>Register-addressed transfers\<close>



section \<open>The chip-select bracket\<close>




section \<open>Scratch buffers and chip-select in the full-duplex functions\<close>

text \<open>
  C5, as amended. In \<open>hs_spi_write_read_data\<close> and \<open>hs_spi_write_read_data_sub\<close> the
  two scratch buffers are allocated after the lock is taken and before chip-select is
  asserted: in every run that invokes the callback, the events up to its first invocation
  are the lock, the allocation of \<open>tx_buf\<close> and the allocation of \<open>rx_buf\<close>, each of the
  payload length; and a run that returns -7 or -8, the codes of a failed allocation, never
  invokes the callback.
\<close>

theorem duplex_allocates_before_chip_select:
  assumes dup: "is_duplex c" and ok: "list_all id (preconditions p c)"
    and run: "hs_spi_transfer env p c w = Some (r, w')"
  shows "(cs_calls (new_events w w') \<noteq> [] \<longrightarrow>
           (\<exists>rest. new_events w w' =
              [Mutex_lock, Malloc Tx_scratch (payload_len c), Malloc Rx_scratch (payload_len c),
               Cs_control_cb True] @ rest)) \<and>
         (r = -7 \<or> r = -8 \<longrightarrow>
            cs_calls (new_events w w') = [] \<and> (\<exists>tr. \<not> malloc_ok env tr))"
proof -
  from transfer_run [OF run ok] dup have
    "run_shape env (hs w) True (payload_len c) (call_msg c) r (new_events w w')" by simp
  from run_shape_duplex_order [OF this] show ?thesis .
qed

theorem duplex_allocates_before_chip_select_witness:
  "is_duplex (Write_read_data (Some 0) 3 (Some 1) 2) \<and>
   list_all id (preconditions Hs_spi (Write_read_data (Some 0) 3 (Some 1) 2)) \<and>
   map_option fst (hs_spi_transfer env_ok Hs_spi (Write_read_data (Some 0) 3 (Some 1) 2)
                     (world_open 2 (Some cb_ok) mem_duplex)) = Some 0 \<and>
   map_option (take 4 \<circ> new_events (world_open 2 (Some cb_ok) mem_duplex) \<circ> snd)
     (hs_spi_transfer env_ok Hs_spi (Write_read_data (Some 0) 3 (Some 1) 2)
        (world_open 2 (Some cb_ok) mem_duplex)) =
     Some [Mutex_lock, Malloc Tx_scratch 3, Malloc Rx_scratch 3, Cs_control_cb True]"
proof -
  let ?c = "Write_read_data (Some 0) 3 (Some 1) 2"
  let ?w = "world_open 2 (Some cb_ok) mem_duplex"
  have dup: "is_duplex ?c" by simp
  have ok: "list_all id (preconditions Hs_spi ?c)" by (simp add: preconditions_def)
  have "\<exists>w'. hs_spi_transfer env_ok Hs_spi ?c ?w = Some (0, w') \<and> cs_calls (new_events ?w w') \<noteq> []"
    by (simp add: eval_defs cb_ok_def transfer_def)
  then obtain w' where run: "hs_spi_transfer env_ok Hs_spi ?c ?w = Some (0, w')"
    and cs: "cs_calls (new_events ?w w') \<noteq> []" by blast
  from duplex_allocates_before_chip_select [OF dup ok run] cs
  have "take 4 (new_events ?w w')
          = [Mutex_lock, Malloc Tx_scratch 3, Malloc Rx_scratch 3, Cs_control_cb True]"
    by auto
  with dup ok show ?thesis unfolding run by simp
qed

text \<open>
  The claim as stated fails on every full-duplex run with a callback: here both
  allocations precede the assertion of chip-select.
\<close>

theorem duplex_allocation_precedes_assertion_counterexample:
  "map_option (trace \<circ> snd)
     (hs_spi_transfer env_ok Hs_spi (Write_read_data (Some 0) 3 (Some 1) 2)
        (world_open 2 (Some cb_ok) mem_duplex)) =
     Some [Mutex_lock, Malloc Tx_scratch 3, Malloc Rx_scratch 3, Cs_control_cb True,
           Ioctl_message 3 [transfer (Some (Tx_scratch, 0)) (Some (Rx_scratch, 0)) 2],
           Ioctl_message 3 [transfer (Some (Tx_scratch, 2)) (Some (Rx_scratch, 2)) 1],
           Cs_control_cb False, Free Tx_scratch, Free Rx_scratch, Mutex_unlock]"
  by (simp add: eval_defs cb_ok_def transfer_def)

section \<open>Argument checks and the descriptor check\<close>

text \<open>
  C6. The preconditions of a call of any of the six transfer functions are, in the order
  of the checks: the handle is not null, then for each buffer argument the pointer is not
  null and the length is not zero. When precondition number \<open>i\<close> (counted from 0) is the
  first that is violated, the call returns the code \<open>-(i + 1)\<close>, a negative code of its
  own, and leaves the world as it was: no lock is taken and no other event happens. When
  all \<open>n\<close> preconditions hold and the descriptor is not open, the call returns
  \<open>-(n + 1)\<close>, a code no precondition has, and its only events are taking and releasing
  the lock. Every call that passes the preconditions takes the lock first, and returns
  \<open>-(n + 1)\<close> only when the descriptor is not open.
\<close>

theorem preconditions_checked_before_lock:
  "(i < length (preconditions p c) \<and> \<not> preconditions p c ! i \<and> (\<forall>j < i. preconditions p c ! j)
      \<longrightarrow> hs_spi_transfer env p c w = Some (- int i - 1, w)) \<and>
   (list_all id (preconditions p c) \<and> fd (hs w) < 0
      \<longrightarrow> hs_spi_transfer env p c w
            = Some (- int (length (preconditions p c)) - 1,
                    pthread_mutex_unlock (pthread_mutex_lock w)) \<and>
          new_events w (pthread_mutex_unlock (pthread_mutex_lock w))
            = [Mutex_lock, Mutex_unlock]) \<and>
   (list_all id (preconditions p c) \<and> hs_spi_transfer env p c w = Some (r, w')
      \<longrightarrow> take 1 (new_events w w') = [Mutex_lock] \<and>
          (r = - int (length (preconditions p c)) - 1 \<longleftrightarrow> fd (hs w) < 0))"
proof (intro conjI impI)
  assume "i < length (preconditions p c) \<and> \<not> preconditions p c ! i
            \<and> (\<forall>j < i. preconditions p c ! j)"
  then show "hs_spi_transfer env p c w = Some (- int i - 1, w)"
    using transfer_precondition by blast
next
  assume a: "list_all id (preconditions p c) \<and> fd (hs w) < 0"
  then show "hs_spi_transfer env p c w
            = Some (- int (length (preconditions p c)) - 1,
                    pthread_mutex_unlock (pthread_mutex_lock w))"
    using transfer_fd [of p c w env] by (simp add: length_preconditions fd_code_def)
  show "new_events w (pthread_mutex_unlock (pthread_mutex_lock w)) = [Mutex_lock, Mutex_unlock]"
    by (simp add: new_events_def)
next
  assume a: "list_all id (preconditions p c) \<and> hs_spi_transfer env p c w = Some (r, w')"
  then have shape:
    "run_shape env (hs w) (is_duplex c) (payload_len c) (call_msg c) r (new_events w w')"
    using transfer_run by blast
  then show "take 1 (new_events w w') = [Mutex_lock]" by (rule run_shape_lock_first)
  show "r = - int (length (preconditions p c)) - 1 \<longleftrightarrow> fd (hs w) < 0"
    using shape unfolding run_shape_def length_preconditions
    by (elim disjE conjE exE) (auto split: if_splits)
qed

theorem preconditions_checked_before_lock_witness:
  "length (preconditions Hs_spi (Write_read_data (Some 0) 3 None 2)) = 5 \<and>
   preconditions Hs_spi (Write_read_data (Some 0) 3 None 2) = [True, True, True, False, True] \<and>
   hs_spi_transfer env_ok Hs_spi (Write_read_data (Some 0) 3 None 2)
       (world_open 2 None mem_duplex) = Some (-4, world_open 2 None mem_duplex) \<and>
   list_all id (preconditions Hs_spi (Write_data (Some 0) 3)) \<and>
   hs_spi_transfer env_ok Hs_spi (Write_data (Some 0) 3)
       \<lparr>hs = \<lparr>fd = -1, cs_control_cb = None, max_transfer_len = 0\<rparr>, mem = mem_duplex, trace = []\<rparr>
     = Some (-4, \<lparr>hs = \<lparr>fd = -1, cs_control_cb = None, max_transfer_len = 0\<rparr>,
                  mem = mem_duplex, trace = [Mutex_lock, Mutex_unlock]\<rparr>)"
proof -
  let ?c = "Write_read_data (Some 0) 3 None 2"
  let ?w0 = "\<lparr>hs = \<lparr>fd = -1, cs_control_cb = None, max_transfer_len = 0\<rparr>, mem = mem_duplex,
              trace = []\<rparr>"
  have pre: "preconditions Hs_spi ?c = [True, True, True, False, True]"
    by (simp add: preconditions_def)
  have ok: "list_all id (preconditions Hs_spi (Write_data (Some 0) 3))"
    by (simp add: preconditions_def)
  have "3 < length (preconditions Hs_spi ?c) \<and> \<not> preconditions Hs_spi ?c ! 3
          \<and> (\<forall>j < 3. preconditions Hs_spi ?c ! j)"
    unfolding pre by (simp add: numeral_3_eq_3 All_less_Suc)
  with preconditions_checked_before_lock [of 3 Hs_spi ?c env_ok "world_open 2 None mem_duplex"]
  have "hs_spi_transfer env_ok Hs_spi ?c (world_open 2 None mem_duplex)
          = Some (-4, world_open 2 None mem_duplex)"
    by simp
  moreover have "fd (hs ?w0) < 0" by simp
  with preconditions_checked_before_lock [of _ Hs_spi "Write_data (Some 0) 3" env_ok ?w0] ok
  have "hs_spi_transfer env_ok Hs_spi (Write_data (Some 0) 3) ?w0
          = Some (- int (length (preconditions Hs_spi (Write_data (Some 0) 3))) - 1,
                  pthread_mutex_unlock (pthread_mutex_lock ?w0))"
    by blast
  then have "hs_spi_transfer env_ok Hs_spi (Write_data (Some 0) 3) ?w0
          = Some (-4, \<lparr>hs = \<lparr>fd = -1, cs_control_cb = None, max_transfer_len = 0\<rparr>,
                  mem = mem_duplex, trace = [Mutex_lock, Mutex_unlock]\<rparr>)"
    by (simp add: preconditions_def pthread_mutex_lock_def pthread_mutex_unlock_def emit_def)
  ultimately show ?thesis using pre ok by simp
qed

section \<open>Setting the chunk size\<close>

text \<open>
  C8. Setting the maximum chunk size to 0 is the same as setting it to 4096: the two calls
  return the same code and leave the same world, so every later sequence of calls, and
  with it the segmentation of every later transfer, is the same; the value stored in the
  handle is 4096, substituted when the field is written.
\<close>

theorem set_max_transfer_len_zero_is_default:
  "hs_spi_set_max_transfer_len p 0 w = hs_spi_set_max_transfer_len p 4096 w \<and>
   max_transfer_len (hs (snd (hs_spi_set_max_transfer_len Hs_spi 0 w))) = 4096 \<and>
   api_run env calls (snd (hs_spi_set_max_transfer_len p 0 w)) =
     api_run env calls (snd (hs_spi_set_max_transfer_len p 4096 w)) \<and>
   hs_spi_transfer env q c (snd (hs_spi_set_max_transfer_len p 0 w)) =
     hs_spi_transfer env q c (snd (hs_spi_set_max_transfer_len p 4096 w))"
  by (simp add: hs_spi_set_max_transfer_len_def set_max_len_def)

section \<open>The transfer functions do not change the handle\<close>

text \<open>
  C10. Every call of one of the six transfer functions that returns, with whatever code,
  leaves the three fields of the handle (descriptor, chip-select callback, maximum chunk
  size) as they were; so a call of the public interface that changes a field of the
  handle is a call of \<open>hs_spi_init\<close>, \<open>hs_spi_destroy\<close>, \<open>hs_spi_set_cs_control_cb\<close> or
  \<open>hs_spi_set_max_transfer_len\<close>. (The callback is user code that sees the history of
  events and not the handle.)
\<close>

theorem transfers_leave_handle_unchanged:
  "(hs_spi_transfer env p c w = Some (r, w') \<longrightarrow> hs w' = hs w) \<and>
   (api_step env p call w = Some (r, w') \<and> hs w' \<noteq> hs w \<longrightarrow>
      (\<exists>name mode speed bits. call = Init name mode speed bits) \<or> call = Destroy \<or>
      (\<exists>cb. call = Set_cs_control_cb cb) \<or> (\<exists>n. call = Set_max_transfer_len n))"
proof (intro conjI impI)
  assume "hs_spi_transfer env p c w = Some (r, w')"
  then show "hs w' = hs w" by (rule transfer_hs)
next
  assume a: "api_step env p call w = Some (r, w') \<and> hs w' \<noteq> hs w"
  show "(\<exists>name mode speed bits. call = Init name mode speed bits) \<or> call = Destroy \<or>
      (\<exists>cb. call = Set_cs_control_cb cb) \<or> (\<exists>n. call = Set_max_transfer_len n)"
  proof (cases call)
    case (Transfer c')
    with a transfer_hs [of env p c' w r w'] show ?thesis by simp
  qed auto
qed

theorem transfers_leave_handle_unchanged_witness:
  "map_option (hs \<circ> snd)
     (hs_spi_transfer env_ok Hs_spi (Write_read_data (Some 0) 3 (Some 1) 2)
        (world_open 2 (Some cb_ok) mem_duplex)) =
     Some (hs (world_open 2 (Some cb_ok) mem_duplex)) \<and>
   map_option fst
     (hs_spi_transfer env_ok Hs_spi (Write_read_data (Some 0) 3 (Some 1) 2)
        (world_open 2 (Some cb_ok) mem_duplex)) = Some 0 \<and>
   max_transfer_len (hs (snd (hs_spi_set_max_transfer_len Hs_spi 7 (world_open 2 None mem_empty))))
     \<noteq> max_transfer_len (hs (world_open 2 None mem_empty))"
proof -
  let ?c = "Write_read_data (Some 0) 3 (Some 1) 2"
  let ?w = "world_open 2 (Some cb_ok) mem_duplex"
  have "\<exists>w'. hs_spi_transfer env_ok Hs_spi ?c ?w = Some (0, w')"
    by (simp add: eval_defs cb_ok_def transfer_def)
  then obtain w' where run: "hs_spi_transfer env_ok Hs_spi ?c ?w = Some (0, w')" ..
  from transfers_leave_handle_unchanged [of env_ok Hs_spi ?c ?w 0 w'] run
  have "hs w' = hs ?w" by blast
  moreover have "max_transfer_len (hs (snd (hs_spi_set_max_transfer_len Hs_spi 7
                    (world_open 2 None mem_empty))))
     \<noteq> max_transfer_len (hs (world_open 2 None mem_empty))"
    by (simp add: hs_spi_set_max_transfer_len_def set_max_len_def world_open_def
          pthread_mutex_lock_def pthread_mutex_unlock_def emit_def)
  ultimately show ?thesis unfolding run by simp
qed

section \<open>Initialisation\<close>


lemmas init_eval_defs =
  hs_spi_init_def sys_open_def close_if_open_def ioctl_config_def fail_close_def set_fd_def
  set_max_len_def sys_close_def pthread_mutex_lock_def pthread_mutex_unlock_def emit_def
  Let_def env_ok_def world_closed_def world_open_def


section \<open>The invariant of the handle\<close>

lemma hs_spi_init_ok:
  assumes "hs_spi_init env p name mode speed bits w = (r, w')" "handle_ok (hs w)"
  shows "handle_ok (hs w')"
proof (cases "p = Hs_spi \<and> name \<noteq> None")
  case True
  then obtain n where "p = Hs_spi" "name = Some n" by auto
  with hs_spi_init_cases [of env n mode speed bits w r w'] assms(1) show ?thesis
    by (auto simp: handle_ok_def)
next
  case False
  with assms show ?thesis
    by (cases p; cases name) (auto simp: hs_spi_init_def)
qed

lemma api_step_ok:
  assumes "api_step env p call w = Some (r, w')" "handle_ok (hs w)"
  shows "handle_ok (hs w')"
proof (cases call)
  case (Init name mode speed bits)
  with assms hs_spi_init_ok [of env p name mode speed bits w r w'] show ?thesis by simp
next
  case Destroy
  with assms show ?thesis
    by (auto simp: hs_spi_destroy_def handle_ok_def close_if_open_world split: if_splits)
next
  case (Set_cs_control_cb cb)
  with assms show ?thesis
    by (auto simp: hs_spi_set_cs_control_cb_def handle_ok_def set_cb_def split: if_splits)
next
  case (Set_max_transfer_len n)
  with assms show ?thesis
    by (auto simp: hs_spi_set_max_transfer_len_def handle_ok_def set_max_len_def
          split: if_splits)
next
  case (Transfer c)
  with assms transfer_hs [of env p c w r w'] show ?thesis by simp
qed

lemma transfer_returns:
  assumes "handle_ok (hs w)"
  shows "\<exists>res. hs_spi_transfer env p c w = Some res"
proof (cases "list_all id (preconditions p c)")
  case True
  from transfer_terminates_ok [OF True, of w env] assms show ?thesis
    by (auto simp: handle_ok_def)
next
  case False
  from transfer_not_ok [OF False, of env w] show ?thesis by blast
qed

lemma api_step_returns:
  "handle_ok (hs w) \<Longrightarrow> \<exists>res. api_step env p call w = Some res"
  using transfer_returns by (cases call) auto

lemma api_run_ok:
  "handle_ok (hs w) \<Longrightarrow> \<exists>w'. api_run env calls w = Some w' \<and> handle_ok (hs w')"
proof (induction calls arbitrary: w)
  case Nil
  then show ?case by simp
next
  case (Cons pc calls)
  obtain p call where pc: "pc = (p, call)" by (cases pc)
  from api_step_returns [OF Cons.prems, of env p call] obtain r w1 where
    step: "api_step env p call w = Some (r, w1)" by auto
  from api_step_ok [OF step Cons.prems] have "handle_ok (hs w1)" .
  from Cons.IH [OF this] show ?case by (simp add: pc step)
qed

lemma hs_spi_create_ok:
  "hs_spi_create env w0 = (Hs_spi, w1) \<Longrightarrow> handle_ok (hs w1)"
  by (auto simp: hs_spi_create_def Let_def handle_ok_def split: if_splits)

lemma run_shape_issued_fd:
  "run_shape env h dup L msg r new \<Longrightarrow> ioctl_messages new \<noteq> [] \<Longrightarrow> 0 \<le> fd h"
  unfolding run_shape_def by (elim disjE conjE exE) auto

text \<open>
  C9. From a handle that \<open>hs_spi_create\<close> returned, every sequence of calls of the public
  interface returns and ends in a state in which an open descriptor comes with a maximum
  chunk size that is not 0. In such a state every call of a transfer function returns; a
  transfer call that issues a native call, which is when its loop reads the chunk size,
  found the descriptor open and so reads a positive chunk size; and every further call of
  the interface keeps the invariant.
\<close>

theorem open_descriptor_has_positive_chunk_size:
  assumes create: "hs_spi_create env w0 = (Hs_spi, w1)"
  shows "\<exists>w. api_run env calls w1 = Some w \<and>
           (0 \<le> fd (hs w) \<longrightarrow> 0 < max_transfer_len (hs w)) \<and>
           (\<exists>res. hs_spi_transfer env p c w = Some res) \<and>
           (\<forall>r w'. hs_spi_transfer env p c w = Some (r, w') \<and>
                    ioctl_messages (new_events w w') \<noteq> []
                    \<longrightarrow> 0 \<le> fd (hs w) \<and> 0 < max_transfer_len (hs w)) \<and>
           (\<forall>q call r w'. api_step env q call w = Some (r, w')
                    \<longrightarrow> (0 \<le> fd (hs w') \<longrightarrow> 0 < max_transfer_len (hs w')))"
proof -
  from api_run_ok [OF hs_spi_create_ok [OF create], of env calls] obtain w where
    run: "api_run env calls w1 = Some w" and ok: "handle_ok (hs w)" by blast
  have issued: "0 \<le> fd (hs w) \<and> 0 < max_transfer_len (hs w)"
    if "hs_spi_transfer env p c w = Some (r, w')" "ioctl_messages (new_events w w') \<noteq> []"
    for r w'
  proof -
    have pre: "list_all id (preconditions p c)"
    proof (rule ccontr)
      assume "\<not> list_all id (preconditions p c)"
      from transfer_not_ok [OF this, of env w] that show False
        by (auto simp: new_events_def)
    qed
    from transfer_run [OF that(1) pre] that(2) have "0 \<le> fd (hs w)"
      using run_shape_issued_fd by blast
    with ok show ?thesis by (simp add: handle_ok_def)
  qed
  have step: "0 \<le> fd (hs w') \<longrightarrow> 0 < max_transfer_len (hs w')"
    if "api_step env q call w = Some (r, w')" for q call r w'
    using api_step_ok [OF that ok] by (simp add: handle_ok_def)
  from run ok transfer_returns [OF ok, of env p c] issued step show ?thesis
    unfolding handle_ok_def by blast
qed

theorem open_descriptor_has_positive_chunk_size_witness:
  "hs_spi_create env_ok world_closed =
     (Hs_spi, \<lparr>hs = \<lparr>fd = -1, cs_control_cb = None, max_transfer_len = 0\<rparr>, mem = mem_empty,
               trace = [Malloc_handle, Mutex_init]\<rparr>) \<and>
   map_option (fd \<circ> hs)
     (api_run env_ok
        [(Hs_spi, Init (Some ''/dev/spidev0.0'') E_HS_SPI_MODE_0 500000 8),
         (Hs_spi, Transfer (Write_data (Some 0) 2))]
        \<lparr>hs = \<lparr>fd = -1, cs_control_cb = None, max_transfer_len = 0\<rparr>, mem = mem_empty,
          trace = [Malloc_handle, Mutex_init]\<rparr>) = Some 3 \<and>
   map_option (max_transfer_len \<circ> hs)
     (api_run env_ok
        [(Hs_spi, Init (Some ''/dev/spidev0.0'') E_HS_SPI_MODE_0 500000 8),
         (Hs_spi, Transfer (Write_data (Some 0) 2))]
        \<lparr>hs = \<lparr>fd = -1, cs_control_cb = None, max_transfer_len = 0\<rparr>, mem = mem_empty,
          trace = [Malloc_handle, Mutex_init]\<rparr>) = Some 4096 \<and>
   map_option ((<) 0 \<circ> max_transfer_len \<circ> hs)
     (api_run env_ok
        [(Hs_spi, Init (Some ''/dev/spidev0.0'') E_HS_SPI_MODE_0 500000 8),
         (Hs_spi, Transfer (Write_data (Some 0) 2))]
        \<lparr>hs = \<lparr>fd = -1, cs_control_cb = None, max_transfer_len = 0\<rparr>, mem = mem_empty,
          trace = [Malloc_handle, Mutex_init]\<rparr>) = Some True"
proof -
  let ?w1 = "\<lparr>hs = \<lparr>fd = -1, cs_control_cb = None, max_transfer_len = 0\<rparr>, mem = mem_empty,
               trace = [Malloc_handle, Mutex_init]\<rparr>"
  let ?calls = "[(Hs_spi, Init (Some ''/dev/spidev0.0'') E_HS_SPI_MODE_0 500000 8),
         (Hs_spi, Transfer (Write_data (Some 0) 2))]"
  have create: "hs_spi_create env_ok world_closed = (Hs_spi, ?w1)"
    by (simp add: hs_spi_create_def env_ok_def world_closed_def emit_def Let_def)
  from open_descriptor_has_positive_chunk_size [OF create, of ?calls]
  obtain w where run: "api_run env_ok ?calls ?w1 = Some w"
    and inv: "0 \<le> fd (hs w) \<longrightarrow> 0 < max_transfer_len (hs w)" by blast
  have "map_option (fd \<circ> hs) (api_run env_ok ?calls ?w1) = Some 3"
    by (simp add: init_eval_defs eval_defs transfer_def)
  then have fd: "fd (hs w) = 3" unfolding run by simp
  have "map_option (max_transfer_len \<circ> hs) (api_run env_ok ?calls ?w1) = Some 4096"
    by (simp add: init_eval_defs eval_defs transfer_def)
  then have len: "max_transfer_len (hs w) = 4096" unfolding run by simp
  from fd inv have "0 < max_transfer_len (hs w)" by simp
  with create fd len show ?thesis unfolding run by simp
qed

section \<open>The scratch buffers of the full-duplex functions\<close>





end
